theory Spec2Isabelle
  imports Complex_Main "HOL-Library.AList"
begin

section \<open>The request engine of the Entrolytics API client (src/client.ts)\<close>

text \<open>
  A shallow embedding of the class \<open>ApiClient\<close>. Strings are byte strings (the UTF-8
  encoding of the source's strings). A JavaScript number is a value of the type
  \<open>number\<close>: a rational (every finite double is one), \<open>NaN\<close> or an infinity. The retry
  count and the values of query parameters are such numbers; the base delay, the
  clock, HTTP statuses and the numbers inside JSON values are integers. What the class
  takes from its runtime (the environment variables, the ambient \<open>fetch\<close>, the URL
  parser, the clock, the base64 encoder, the digits of a number that is not a safe
  integer) is a parameter of the model, the record \<open>platform\<close>. An exception is a value
  of type \<open>thrown\<close>; a function that can throw returns \<open>thrown + 'a\<close>, with \<open>Inl\<close> the
  exception. A promise that never settles is the value \<open>None\<close>.
\<close>

subsection \<open>Values\<close>

text \<open>A JSON value: what \<open>response.json()\<close> resolves to, and what a caller passes as
  a JSON-serializable \<open>body\<close>. An object is the list of its own properties in
  enumeration order.\<close>

datatype json =
    JNull
  | JBool bool
  | JNum int
  | JStr string
  | JArr "json list"
  | JObj "(string \<times> json) list"

text \<open>A thrown value: an instance of \<open>Error\<close> (or of its subclass \<open>TypeError\<close>) with
  its message, or any other value (a string, a plain object with whatever properties,
  \<open>null\<close>), given as a JSON value.\<close>

datatype thrown = Error string | TypeError string | NonError json

fun instanceof_Error :: "thrown \<Rightarrow> bool" where
  "instanceof_Error (Error m) = True"
| "instanceof_Error (TypeError m) = True"
| "instanceof_Error (NonError v) = False"

text \<open>\<open>error.message\<close>, which the code reads of an instance of \<open>Error\<close> only.\<close>

fun message :: "thrown \<Rightarrow> string" where
  "message (Error m) = m"
| "message (TypeError m) = m"
| "message (NonError v) = []"

text \<open>A number: a finite one with its value, \<open>NaN\<close>, \<open>Infinity\<close> or \<open>-Infinity\<close>.\<close>

datatype number = Finite rat | NaN | Infinity | NegInfinity

text \<open>\<open>a <= x\<close> and \<open>a < x\<close> for a counter \<open>a\<close> and a number \<open>x\<close>: both are false
  when \<open>x\<close> is \<open>NaN\<close>.\<close>

fun less_eq_number :: "nat \<Rightarrow> number \<Rightarrow> bool" where
  "less_eq_number a (Finite q) = (of_nat a \<le> q)"
| "less_eq_number a NaN = False"
| "less_eq_number a Infinity = True"
| "less_eq_number a NegInfinity = False"

fun less_number :: "nat \<Rightarrow> number \<Rightarrow> bool" where
  "less_number a (Finite q) = (of_nat a < q)"
| "less_number a NaN = False"
| "less_number a Infinity = True"
| "less_number a NegInfinity = False"

text \<open>\<open>a++\<close> for a counter: the next integer as long as a double holds it exactly,
  that is up to \<open>2^53\<close>; there the sum rounds back to \<open>2^53\<close> and the counter stays.\<close>

definition increment :: "nat \<Rightarrow> nat" where
  "increment a = (if int a < 9007199254740992 then Suc a else a)"

text \<open>Truthiness, as \<open>if (x)\<close>, \<open>x || y\<close> and \<open>x && y\<close> test it. \<open>None\<close> is
  \<open>undefined\<close>.\<close>

fun truthy :: "json option \<Rightarrow> bool" where
  "truthy None = False"
| "truthy (Some JNull) = False"
| "truthy (Some (JBool b)) = b"
| "truthy (Some (JNum n)) = (n \<noteq> 0)"
| "truthy (Some (JStr s)) = (s \<noteq> [])"
| "truthy (Some (JArr xs)) = True"
| "truthy (Some (JObj fs)) = True"

fun truthy_str :: "string option \<Rightarrow> bool" where
  "truthy_str None = False"
| "truthy_str (Some s) = (s \<noteq> [])"

text \<open>\<open>a || b\<close> on optional strings: the first operand when it is truthy, else the
  second.\<close>

definition or_else :: "string option \<Rightarrow> string option \<Rightarrow> string option" where
  "or_else a b = (if truthy_str a then a else b)"

text \<open>The decimal digits of an integer.\<close>

fun digits :: "nat \<Rightarrow> string" where
  "digits n = (if n < 10 then [''0123456789'' ! n] else digits (n div 10) @ [''0123456789'' ! (n mod 10)])"

declare digits.simps [simp del]

definition decimal :: "int \<Rightarrow> string" where
  "decimal i = (if i < 0 then CHR ''-'' # digits (nat (- i)) else digits (nat i))"

subsection \<open>Quoting and joining strings\<close>

text \<open>The escapes of \<open>JSON.stringify\<close>, hexadecimal digits, and \<open>Array.prototype.join\<close>.\<close>

definition hex_lower :: "nat \<Rightarrow> char" where
  "hex_lower n = ''0123456789abcdef'' ! (n mod 16)"

definition hex_upper :: "nat \<Rightarrow> char" where
  "hex_upper n = ''0123456789ABCDEF'' ! (n mod 16)"

definition json_escape :: "char \<Rightarrow> string" where
  "json_escape c =
     (if c = CHR 0x22 then [CHR 0x5C, CHR 0x22]
      else if c = CHR 0x5C then [CHR 0x5C, CHR 0x5C]
      else if c = CHR 0x08 then [CHR 0x5C, CHR ''b'']
      else if c = CHR 0x0C then [CHR 0x5C, CHR ''f'']
      else if c = CHR 0x0A then [CHR 0x5C, CHR ''n'']
      else if c = CHR 0x0D then [CHR 0x5C, CHR ''r'']
      else if c = CHR 0x09 then [CHR 0x5C, CHR ''t'']
      else if (of_char c :: nat) < 0x20
        then [CHR 0x5C, CHR ''u'', CHR ''0'', CHR ''0'',
              hex_lower (of_char c div 16), hex_lower (of_char c)]
      else [c])"

definition json_quote :: "string \<Rightarrow> string" where
  "json_quote s = CHR 0x22 # concat (map json_escape s) @ [CHR 0x22]"

fun join :: "string \<Rightarrow> string list \<Rightarrow> string" where
  "join sep [] = []"
| "join sep [x] = x"
| "join sep (x # y # ys) = x @ sep @ join sep (y # ys)"

subsection \<open>Property access on a parsed body\<close>

text \<open>\<open>data.name\<close> for \<open>name\<close> one of \<open>error\<close>, \<open>message\<close>: reading a property of
  \<open>null\<close> throws a \<open>TypeError\<close> (the message is V8's); an object yields its property
  or \<open>undefined\<close>; a boolean, a number, a string and an array have no such
  property.\<close>

fun get_property :: "json \<Rightarrow> string \<Rightarrow> thrown + json option" where
  "get_property JNull name =
     Inl (TypeError (''Cannot read properties of null (reading ''
                     @ [CHR 0x27] @ name @ [CHR 0x27] @ '')''))"
| "get_property (JObj fs) name = Inr (map_of fs name)"
| "get_property (JBool b) name = Inr None"
| "get_property (JNum n) name = Inr None"
| "get_property (JStr s) name = Inr None"
| "get_property (JArr xs) name = Inr None"

text \<open>\<open>typeof v === 'string' ? v : ...\<close>: the string, when \<open>v\<close> is one.\<close>

fun string_value :: "json option \<Rightarrow> string option" where
  "string_value (Some (JStr s)) = Some s"
| "string_value v = None"

subsection \<open>URLs\<close>

text \<open>
  A \<open>URL\<close> object: its serialization up to and including the path, its query (without
  the question mark), the list of its \<open>searchParams\<close> and its fragment.
\<close>

record URL =
  href_base :: string
  query :: "string option"
  searchParams :: "(string \<times> string) list"
  fragment :: "string option"

definition URL_toString :: "URL \<Rightarrow> string" where
  "URL_toString u =
     href_base u
     @ (case query u of None \<Rightarrow> [] | Some q \<Rightarrow> CHR ''?'' # q)
     @ (case fragment u of None \<Rightarrow> [] | Some f \<Rightarrow> CHR ''#'' # f)"

text \<open>The \<open>application/x-www-form-urlencoded\<close> serializer of the URL standard.\<close>

definition is_alnum :: "char \<Rightarrow> bool" where
  "is_alnum c =
     (let n = (of_char c :: nat)
      in (0x30 \<le> n \<and> n \<le> 0x39) \<or> (0x41 \<le> n \<and> n \<le> 0x5A) \<or> (0x61 \<le> n \<and> n \<le> 0x7A))"

definition is_alpha :: "char \<Rightarrow> bool" where
  "is_alpha c =
     (let n = (of_char c :: nat)
      in (0x41 \<le> n \<and> n \<le> 0x5A) \<or> (0x61 \<le> n \<and> n \<le> 0x7A))"

definition urlencode_byte :: "char \<Rightarrow> string" where
  "urlencode_byte c =
     (if c = CHR '' '' then ''+''
      else if is_alnum c \<or> c = CHR ''*'' \<or> c = CHR ''-'' \<or> c = CHR ''.'' \<or> c = CHR ''_''
        then [c]
      else [CHR ''%'', hex_upper (of_char c div 16), hex_upper (of_char c)])"

definition urlencode :: "string \<Rightarrow> string" where
  "urlencode s = concat (map urlencode_byte s)"

definition urlencoded_serialize :: "(string \<times> string) list \<Rightarrow> string" where
  "urlencoded_serialize ps = join ''&'' (map (\<lambda>(k, v). urlencode k @ ''='' @ urlencode v) ps)"

text \<open>\<open>url.searchParams.set(name, value)\<close>: the first pair named \<open>name\<close> gets the
  value and the later ones are removed, or the pair is appended; then the URL's query
  becomes the serialization of the list.\<close>

fun set_pair :: "string \<Rightarrow> string \<Rightarrow> (string \<times> string) list \<Rightarrow> (string \<times> string) list" where
  "set_pair k v [] = [(k, v)]"
| "set_pair k v (p # ps) =
     (if fst p = k then (k, v) # filter (\<lambda>q. fst q \<noteq> k) ps else p # set_pair k v ps)"

definition searchParams_set :: "string \<Rightarrow> string \<Rightarrow> URL \<Rightarrow> URL" where
  "searchParams_set k v u =
     (let ps = set_pair k v (searchParams u); s = urlencoded_serialize ps
      in u\<lparr>searchParams := ps, query := (if s = [] then None else Some s)\<rparr>)"

text \<open>
  A string has a scheme when, with leading and trailing C0 controls and spaces removed
  and tabs and newlines deleted, it starts with a letter followed by letters, digits,
  \<open>+\<close>, \<open>-\<close> and \<open>.\<close> up to a colon. The URL parser fails on a base that has none.
\<close>

definition c0_or_space :: "char \<Rightarrow> bool" where
  "c0_or_space c = ((of_char c :: nat) \<le> 0x20)"

definition url_trim :: "string \<Rightarrow> string" where
  "url_trim s =
     filter (\<lambda>c. c \<noteq> CHR 0x09 \<and> c \<noteq> CHR 0x0A \<and> c \<noteq> CHR 0x0D)
       (rev (dropWhile c0_or_space (rev (dropWhile c0_or_space s))))"

definition scheme_char :: "char \<Rightarrow> bool" where
  "scheme_char c = (is_alnum c \<or> c = CHR ''+'' \<or> c = CHR ''-'' \<or> c = CHR ''.'')"

fun starts_with_scheme :: "string \<Rightarrow> bool" where
  "starts_with_scheme [] = False"
| "starts_with_scheme (c # cs) =
     (is_alpha c \<and> (case dropWhile scheme_char cs of [] \<Rightarrow> False | d # ds \<Rightarrow> d = CHR '':''))"

definition has_scheme :: "string \<Rightarrow> bool" where
  "has_scheme s = starts_with_scheme (url_trim s)"

subsection \<open>The transport\<close>

datatype HttpMethod = GET | POST | PUT | DELETE | PATCH

text \<open>One invocation \<open>fetchFn(url, fetchOptions)\<close>: the URL and the fields of
  \<open>fetchOptions\<close>. An object of headers is the list of its entries in insertion
  order.\<close>

record fetch_call =
  url :: string
  "method" :: HttpMethod
  headers :: "(string \<times> string) list"
  body :: "string option"

text \<open>A \<open>Response\<close>: its status, and what \<open>response.json()\<close> resolves to (\<open>None\<close>
  when the body does not parse and the promise rejects). \<open>response.ok\<close> is, by the
  Fetch standard, that the status is in the range 200 to 299.\<close>

record Response =
  resp_status :: int
  resp_json :: "json option"

definition resp_ok :: "Response \<Rightarrow> bool" where
  "resp_ok r = (200 \<le> resp_status r \<and> resp_status r \<le> 299)"

text \<open>How the promise that \<open>fetchFn\<close> returns settles: it resolves to a response, it
  rejects with a thrown value (or \<open>fetchFn\<close> throws it), or it stays pending for ever
  (or the reading of the response body does).\<close>

datatype fetch_result = Resolves Response | Rejects thrown | Pending

text \<open>What one invocation of the transport does: how its promise settles, and, since
  the transport is the caller's own code and runs while the request is suspended,
  the token it (or any other code that runs meanwhile) passes to \<open>setBearerToken\<close>,
  if any.\<close>

record reply =
  settled :: fetch_result
  token_update :: "string option"

text \<open>A transport function: the reply to its \<open>n\<close>-th invocation (counted from 0 within
  one call of \<open>request\<close>) with the given arguments.\<close>

type_synonym fetch = "nat \<Rightarrow> fetch_call \<Rightarrow> reply"

subsection \<open>The runtime\<close>

text \<open>
  \<open>process_env\<close> is \<open>process.env\<close> (\<open>None\<close> on a runtime without it);
  \<open>global_fetch\<close> is \<open>globalThis.fetch\<close> (\<open>None\<close> where there is none);
  \<open>URL_parse path base\<close> is the URL parser
  applied to \<open>path\<close> against a base that has a scheme (\<open>None\<close> is failure);
  \<open>Date_now n\<close> is what \<open>Date.now()\<close> returns during the \<open>n\<close>-th attempt of a
  request; \<open>base64\<close> is \<open>Buffer.from(s).toString('base64')\<close> where \<open>Buffer\<close> exists and
  \<open>btoa(s)\<close> elsewhere, which can throw; \<open>Number_digits q\<close> is what \<open>Number::toString\<close>
  gives for a finite number \<open>q\<close> that is not a safe integer (the shortest digits that
  read back as \<open>q\<close>, in positional or exponent form).
\<close>

record platform =
  process_env :: "(string \<Rightarrow> string option) option"
  global_fetch :: "fetch option"
  URL_parse :: "string \<Rightarrow> string \<Rightarrow> URL option"
  Date_now :: "nat \<Rightarrow> int"
  base64 :: "string \<Rightarrow> thrown + string"
  Number_digits :: "rat \<Rightarrow> string"

subsection \<open>The string of a number\<close>

text \<open>\<open>Number.isSafeInteger\<close>: an integer of magnitude below \<open>2^53\<close>.\<close>

definition is_safe_integer :: "rat \<Rightarrow> bool" where
  "is_safe_integer q = (of_int \<lfloor>q\<rfloor> = q \<and> \<bar>q\<bar> < 9007199254740992)"

text \<open>\<open>String(x)\<close> and \<open>`${x}`\<close> for a number, which is also how \<open>JSON.stringify\<close>
  writes a finite one: a safe integer is written with all its decimal digits; the
  digits of any other finite number are the runtime's.\<close>

definition String_number :: "platform \<Rightarrow> number \<Rightarrow> string" where
  "String_number pf x =
     (case x of
        Finite q \<Rightarrow> if is_safe_integer q then decimal \<lfloor>q\<rfloor> else Number_digits pf q
      | NaN \<Rightarrow> ''NaN''
      | Infinity \<Rightarrow> ''Infinity''
      | NegInfinity \<Rightarrow> ''-Infinity'')"

text \<open>The same for a number that is an integer.\<close>

definition String_integer :: "platform \<Rightarrow> int \<Rightarrow> string" where
  "String_integer pf i = String_number pf (Finite (of_int i))"

subsection \<open>\<open>JSON.stringify\<close>\<close>

primrec JSON_stringify :: "platform \<Rightarrow> json \<Rightarrow> string"
  and stringify_elements :: "platform \<Rightarrow> json list \<Rightarrow> string list"
  and stringify_members :: "platform \<Rightarrow> (string \<times> json) list \<Rightarrow> string list"
  and stringify_member :: "platform \<Rightarrow> string \<times> json \<Rightarrow> string"
where
  "JSON_stringify pf JNull = ''null''"
| "JSON_stringify pf (JBool b) = (if b then ''true'' else ''false'')"
| "JSON_stringify pf (JNum n) = String_integer pf n"
| "JSON_stringify pf (JStr s) = json_quote s"
| "JSON_stringify pf (JArr xs) = ''['' @ join '','' (stringify_elements pf xs) @ '']''"
| "JSON_stringify pf (JObj fs) = ''{'' @ join '','' (stringify_members pf fs) @ ''}''"
| "stringify_elements pf [] = []"
| "stringify_elements pf (x # xs) = JSON_stringify pf x # stringify_elements pf xs"
| "stringify_members pf [] = []"
| "stringify_members pf (f # fs) = stringify_member pf f # stringify_members pf fs"
| "stringify_member pf (k, v) = json_quote k @ '':'' @ JSON_stringify pf v"

subsection \<open>Configuration and construction\<close>

text \<open>\<open>ClientConfig\<close>; its fields carry the prefix \<open>cfg_\<close> to keep them apart from the
  fields of the client.\<close>

record ClientConfig =
  cfg_endpoint :: "string option"
  cfg_bearerToken :: "string option"
  cfg_apiKey :: "string option"
  cfg_userId :: "string option"
  cfg_secret :: "string option"
  cfg_fetch :: "fetch option"
  cfg_retries :: "number option"
  cfg_retryDelay :: "int option"

record ApiClient =
  endpoint :: string
  bearerToken :: "string option"
  apiKey :: "string option"
  userId :: "string option"
  secret :: "string option"
  fetchFn :: "fetch option"
  retries :: number
  retryDelay :: int

definition getEnv :: "platform \<Rightarrow> string \<Rightarrow> string option" where
  "getEnv pf key = (case process_env pf of None \<Rightarrow> None | Some env \<Rightarrow> env key)"

text \<open>The value of an optional string that has been tested truthy.\<close>

fun string_of :: "string option \<Rightarrow> string" where
  "string_of None = []"
| "string_of (Some s) = s"

definition endpoint_required :: thrown where
  "endpoint_required =
     Error ''Entrolytics API endpoint is required. Set ENTROLYTICS_API_ENDPOINT or pass endpoint in config.''"

definition ApiClient_new :: "platform \<Rightarrow> ClientConfig \<Rightarrow> thrown + ApiClient" where
  "ApiClient_new pf config =
     (let this = \<lparr>
        endpoint = string_of (or_else (or_else (cfg_endpoint config)
                                (getEnv pf ''ENTROLYTICS_API_ENDPOINT'')) (Some [])),
        bearerToken = or_else (cfg_bearerToken config) (getEnv pf ''ENTROLYTICS_BEARER_TOKEN''),
        apiKey = or_else (cfg_apiKey config) (getEnv pf ''ENTROLYTICS_API_KEY''),
        userId = or_else (cfg_userId config) (getEnv pf ''ENTROLYTICS_USER_ID''),
        secret = or_else (cfg_secret config) (getEnv pf ''ENTROLYTICS_SECRET''),
        fetchFn = (case cfg_fetch config of Some f \<Rightarrow> Some f | None \<Rightarrow> global_fetch pf),
        retries = (case cfg_retries config of Some n \<Rightarrow> n | None \<Rightarrow> Finite 3),
        retryDelay = (case cfg_retryDelay config of Some n \<Rightarrow> n | None \<Rightarrow> 1000) \<rparr>
      in if endpoint this = [] then Inl endpoint_required else Inr this)"

definition setBearerToken :: "ApiClient \<Rightarrow> string \<Rightarrow> ApiClient" where
  "setBearerToken this token = this\<lparr>bearerToken := Some token\<rparr>"

subsection \<open>Authentication headers\<close>

definition createShareToken :: "platform \<Rightarrow> int \<Rightarrow> ApiClient \<Rightarrow> thrown + string" where
  "createShareToken pf now this =
     (if \<not> (truthy_str (userId this) \<and> truthy_str (secret this))
      then Inl (Error ''userId and secret are required for self-hosted authentication'')
      else base64 pf (JSON_stringify pf
             (JObj [(''userId'', JStr (string_of (userId this))), (''timestamp'', JNum now)])))"

definition getAuthHeaders :: "platform \<Rightarrow> int \<Rightarrow> ApiClient \<Rightarrow> thrown + (string \<times> string) list" where
  "getAuthHeaders pf now this =
     (if truthy_str (bearerToken this)
        then Inr [(''Authorization'', ''Bearer '' @ string_of (bearerToken this))]
      else if truthy_str (apiKey this)
        then Inr [(''x-entrolytics-api-key'', string_of (apiKey this))]
      else if truthy_str (userId this) \<and> truthy_str (secret this)
        then (case createShareToken pf now this of
                Inl e \<Rightarrow> Inl e
              | Inr t \<Rightarrow> Inr [(''x-entrolytics-share-token'', t)])
      else Inr [])"

subsection \<open>Retry policy and URL construction\<close>

definition isRetryable :: "int \<Rightarrow> bool" where
  "isRetryable status = (status = 0 \<or> status = 429 \<or> status \<ge> 500)"

text \<open>The value of a query parameter that is not \<open>undefined\<close>, and \<open>String(value)\<close>.\<close>

datatype param_value = PString string | PNumber number | PBoolean bool

fun String_of :: "platform \<Rightarrow> param_value \<Rightarrow> string" where
  "String_of pf (PString s) = s"
| "String_of pf (PNumber n) = String_number pf n"
| "String_of pf (PBoolean b) = (if b then ''true'' else ''false'')"

text \<open>\<open>new URL(path, base)\<close>: a \<open>TypeError\<close> when the base has no scheme or the parser
  fails.\<close>

definition URL_new :: "platform \<Rightarrow> string \<Rightarrow> string \<Rightarrow> thrown + URL" where
  "URL_new pf path base =
     (if \<not> has_scheme base then Inl (TypeError ''Invalid URL'')
      else case URL_parse pf path base of
             None \<Rightarrow> Inl (TypeError ''Invalid URL'')
           | Some u \<Rightarrow> Inr u)"

text \<open>The \<open>forEach\<close> over \<open>Object.entries(params)\<close>; \<open>None\<close> is the value
  \<open>undefined\<close>.\<close>

fun set_params :: "platform \<Rightarrow> (string \<times> param_value option) list \<Rightarrow> URL \<Rightarrow> URL" where
  "set_params pf [] u = u"
| "set_params pf ((key, v) # es) u =
     set_params pf es (case v of None \<Rightarrow> u | Some x \<Rightarrow> searchParams_set key (String_of pf x) u)"

text \<open>\<open>buildUrl\<close> up to its last line: the URL object that \<open>toString\<close> is applied
  to.\<close>

definition buildUrl_URL ::
  "platform \<Rightarrow> ApiClient \<Rightarrow> string \<Rightarrow> (string \<times> param_value option) list option \<Rightarrow> thrown + URL" where
  "buildUrl_URL pf this path params =
     (case URL_new pf path (endpoint this) of
        Inl e \<Rightarrow> Inl e
      | Inr u \<Rightarrow> Inr (case params of None \<Rightarrow> u | Some es \<Rightarrow> set_params pf es u))"

definition buildUrl ::
  "platform \<Rightarrow> ApiClient \<Rightarrow> string \<Rightarrow> (string \<times> param_value option) list option \<Rightarrow> thrown + string" where
  "buildUrl pf this path params =
     (case buildUrl_URL pf this path params of Inl e \<Rightarrow> Inl e | Inr u \<Rightarrow> Inr (URL_toString u))"

subsection \<open>The response envelope and the request options\<close>

text \<open>\<open>ApiResponse\<close>; an optional field that is not set is \<open>None\<close>.\<close>

record ApiResponse =
  ok :: bool
  status :: int
  data :: "json option"
  error :: "string option"

definition failure :: "int \<Rightarrow> string \<Rightarrow> ApiResponse" where
  "failure s m = \<lparr>ok = False, status = s, data = None, error = Some m\<rparr>"

definition success :: "int \<Rightarrow> json \<Rightarrow> ApiResponse" where
  "success s d = \<lparr>ok = True, status = s, data = Some d, error = None\<rparr>"

text \<open>\<open>RequestOptions\<close>; its fields carry the prefix \<open>opt_\<close>. The body is a
  JSON-serializable value or \<open>undefined\<close>.\<close>

record RequestOptions =
  opt_method :: "HttpMethod option"
  opt_body :: "json option"
  opt_params :: "(string \<times> param_value option) list option"
  opt_headers :: "(string \<times> string) list option"

subsection \<open>Request execution\<close>

text \<open>What a call of \<open>request\<close> reads and changes while it runs: the client (whose
  bearer token can be replaced while the call is suspended), and, as a record of its
  effects, the transport invocations and the delays slept, both in order. A delay
  \<open>retryDelay * 2 ** attempt\<close> is on record as the exact product of the integers; the
  source computes it in doubles, which is the same number as long as it is below
  \<open>2^53\<close>.\<close>

record state =
  client :: ApiClient
  calls :: "fetch_call list"
  sleeps :: "int list"

text \<open>\<open>{ ...obj, ...src }\<close>: the entries of \<open>src\<close> written into \<open>obj\<close> in order, an
  existing key keeping its place.\<close>

definition spread :: "(string \<times> string) list \<Rightarrow> (string \<times> string) list \<Rightarrow> (string \<times> string) list" where
  "spread obj src = foldl (\<lambda>acc (k, v). AList.update k v acc) obj src"

definition body_text :: "platform \<Rightarrow> json option \<Rightarrow> string option" where
  "body_text pf b = (case b of None \<Rightarrow> None
                     | Some v \<Rightarrow> if truthy (Some v) then Some (JSON_stringify pf v) else None)"

definition errorMessage :: "platform \<Rightarrow> json \<Rightarrow> int \<Rightarrow> thrown + string" where
  "errorMessage pf d st =
     (case get_property d ''error'' of
        Inl e \<Rightarrow> Inl e
      | Inr v \<Rightarrow>
         (case string_value v of
            Some s \<Rightarrow> Inr s
          | None \<Rightarrow>
             (case get_property d ''message'' of
                Inl e \<Rightarrow> Inl e
              | Inr w \<Rightarrow>
                 (case string_value w of
                    Some s \<Rightarrow> Inr s
                  | None \<Rightarrow> Inr (''HTTP '' @ String_integer pf st)))))"

definition sleep :: "int \<Rightarrow> state \<Rightarrow> state" where
  "sleep ms st = st\<lparr>sleeps := sleeps st @ [ms]\<rparr>"

text \<open>How one iteration of the loop ends: with a \<open>return\<close>, or by going on to the next
  iteration with \<open>lastError\<close> set; or it does not end, suspended at an \<open>await\<close> that
  never resumes.\<close>

datatype step = Return ApiResponse state | Continue ApiResponse state | Suspended state

text \<open>The object \<open>fetchOptions\<close>, with the URL it is sent to.\<close>

definition fetchOptions ::
  "platform \<Rightarrow> string \<Rightarrow> HttpMethod \<Rightarrow> json option \<Rightarrow> (string \<times> string) list \<Rightarrow> (string \<times> string) list \<Rightarrow> fetch_call" where
  "fetchOptions pf u m b hdrs auth =
     \<lparr> url = u, method = m,
       headers = spread (spread [(''Content-Type'', ''application/json'')] auth) hdrs,
       body = body_text pf b \<rparr>"

text \<open>The state when \<open>await this.fetchFn(url, fetchOptions)\<close> resumes or throws: the
  invocation is on record, and a token passed to \<open>setBearerToken\<close> meanwhile is in
  place.\<close>

definition awaited :: "reply \<Rightarrow> fetch_call \<Rightarrow> state \<Rightarrow> state" where
  "awaited r call st =
     st\<lparr> calls := calls st @ [call],
         client := (case token_update r of
                      None \<Rightarrow> client st
                    | Some t \<Rightarrow> setBearerToken (client st) t) \<rparr>"

text \<open>The \<open>try\<close> block from \<open>response.json()\<close> on.\<close>

definition on_response :: "platform \<Rightarrow> nat \<Rightarrow> Response \<Rightarrow> state \<Rightarrow> (thrown \<times> state) + step" where
  "on_response pf attempt response st =
     (let d = (case resp_json response of None \<Rightarrow> JObj [] | Some v \<Rightarrow> v)
      in if \<not> resp_ok response then
           (case errorMessage pf d (resp_status response) of
              Inl e \<Rightarrow> Inl (e, st)
            | Inr msg \<Rightarrow>
               (let lastError = failure (resp_status response) msg
                in if isRetryable (resp_status response) \<and> less_number attempt (retries (client st))
                   then Inr (Continue lastError (sleep (retryDelay (client st) * 2 ^ attempt) st))
                   else Inr (Return lastError st)))
         else Inr (Return (success (resp_status response) d) st))"

text \<open>The body of the \<open>try\<close> block in iteration \<open>attempt\<close>; \<open>Inl\<close> is an exception,
  with the state it was thrown in.\<close>

definition try_attempt ::
  "platform \<Rightarrow> string \<Rightarrow> HttpMethod \<Rightarrow> json option \<Rightarrow> (string \<times> string) list \<Rightarrow> nat \<Rightarrow> state
     \<Rightarrow> (thrown \<times> state) + step" where
  "try_attempt pf u m b hdrs attempt st =
     (case getAuthHeaders pf (Date_now pf attempt) (client st) of
        Inl e \<Rightarrow> Inl (e, st)
      | Inr auth \<Rightarrow>
         (case fetchFn (client st) of
            None \<Rightarrow> Inl (TypeError ''this.fetchFn is not a function'', st)
          | Some f \<Rightarrow>
             (let call = fetchOptions pf u m b hdrs auth;
                  r = f (length (calls st)) call
              in case settled r of
                   Rejects e \<Rightarrow> Inl (e, awaited r call st)
                 | Resolves response \<Rightarrow> on_response pf attempt response (awaited r call st)
                 | Pending \<Rightarrow> Inr (Suspended (awaited r call st)))))"

text \<open>The \<open>catch\<close> block.\<close>

definition catch_block :: "nat \<Rightarrow> thrown \<Rightarrow> state \<Rightarrow> step" where
  "catch_block attempt e st =
     (let lastError = failure 0 (if instanceof_Error e then message e else ''Network error'')
      in Continue lastError
           (if less_number attempt (retries (client st))
            then sleep (retryDelay (client st) * 2 ^ attempt) st else st))"

text \<open>One iteration: the \<open>try\<close> block and the \<open>catch\<close> block.\<close>

definition attempt_step ::
  "platform \<Rightarrow> string \<Rightarrow> HttpMethod \<Rightarrow> json option \<Rightarrow> (string \<times> string) list \<Rightarrow> nat \<Rightarrow> state \<Rightarrow> step" where
  "attempt_step pf u m b hdrs attempt st =
     (case try_attempt pf u m b hdrs attempt st of
        Inr s \<Rightarrow> s
      | Inl (e, st1) \<Rightarrow> catch_block attempt e st1)"

text \<open>The \<open>for\<close> loop from iteration \<open>attempt\<close> on, and the \<open>return\<close> after it. The
  loop need not end (the retry count can be \<open>Infinity\<close>, and an iteration can stay
  suspended): \<open>None\<close> is the loop that does not end.\<close>

partial_function (option) request_loop ::
  "platform \<Rightarrow> string \<Rightarrow> HttpMethod \<Rightarrow> json option \<Rightarrow> (string \<times> string) list \<Rightarrow> nat
     \<Rightarrow> ApiResponse option \<Rightarrow> state \<Rightarrow> (ApiResponse \<times> state) option" where
  "request_loop pf u m b hdrs attempt lastError st =
     (if less_eq_number attempt (retries (client st)) then
        (case attempt_step pf u m b hdrs attempt st of
           Return r st' \<Rightarrow> Some (r, st')
         | Continue e st' \<Rightarrow> request_loop pf u m b hdrs (increment attempt) (Some e) st'
         | Suspended st' \<Rightarrow> None)
      else Some (case lastError of
                   Some e \<Rightarrow> (e, st)
                 | None \<Rightarrow> (failure 0 ''Request failed after retries'', st)))"

declare request_loop.simps [code]

text \<open>\<open>request\<close>: the exception it throws (its promise rejects), or the envelope it
  resolves to and the final state; \<open>None\<close> when its promise never settles.\<close>

definition request ::
  "platform \<Rightarrow> ApiClient \<Rightarrow> string \<Rightarrow> RequestOptions \<Rightarrow> (thrown + (ApiResponse \<times> state)) option" where
  "request pf this path options =
     (let m = (case opt_method options of None \<Rightarrow> GET | Some x \<Rightarrow> x);
          hdrs = (case opt_headers options of None \<Rightarrow> [] | Some h \<Rightarrow> h)
      in case buildUrl pf this path (opt_params options) of
           Inl e \<Rightarrow> Some (Inl e)
         | Inr u \<Rightarrow>
            map_option Inr (request_loop pf u m (opt_body options) hdrs 0 None
                              \<lparr>client = this, calls = [], sleeps = []\<rparr>))"

definition get ::
  "platform \<Rightarrow> ApiClient \<Rightarrow> string \<Rightarrow> (string \<times> param_value option) list option
     \<Rightarrow> (thrown + (ApiResponse \<times> state)) option" where
  "get pf this path params =
     request pf this path
       \<lparr>opt_method = Some GET, opt_body = None, opt_params = params, opt_headers = None\<rparr>"

definition post ::
  "platform \<Rightarrow> ApiClient \<Rightarrow> string \<Rightarrow> json option \<Rightarrow> (thrown + (ApiResponse \<times> state)) option" where
  "post pf this path b =
     request pf this path
       \<lparr>opt_method = Some POST, opt_body = b, opt_params = None, opt_headers = None\<rparr>"




subsection \<open>A runtime and transports for the examples\<close>

text \<open>Base64 as \<open>Buffer.from(s).toString('base64')\<close> computes it.\<close>

definition b64_char :: "nat \<Rightarrow> char" where
  "b64_char n = ''ABCDEFGHIJKLMNOPQRSTUVWXYZabcdefghijklmnopqrstuvwxyz0123456789+/'' ! (n mod 64)"

fun base64_encode :: "nat list \<Rightarrow> string" where
  "base64_encode (a # b # c # rest) =
     [b64_char (a div 4), b64_char ((a mod 4) * 16 + b div 16),
      b64_char ((b mod 16) * 4 + c div 64), b64_char (c mod 64)] @ base64_encode rest"
| "base64_encode [a, b] =
     [b64_char (a div 4), b64_char ((a mod 4) * 16 + b div 16), b64_char ((b mod 16) * 4), CHR ''='']"
| "base64_encode [a] = [b64_char (a div 4), b64_char ((a mod 4) * 16), CHR ''='', CHR ''='']"
| "base64_encode [] = []"

definition Buffer_base64 :: "string \<Rightarrow> string" where
  "Buffer_base64 s = base64_encode (map of_char s)"

text \<open>The URL parser on the inputs of the examples: \<open>/users\<close> and \<open>/users?page=1\<close>
  against the base \<open>https://api.example.com\<close>.\<close>

definition example_URL_parse :: "string \<Rightarrow> string \<Rightarrow> URL option" where
  "example_URL_parse path base =
     (if base = ''https://api.example.com'' \<and> path = ''/users''
        then Some \<lparr>href_base = ''https://api.example.com/users'', query = None,
                   searchParams = [], fragment = None\<rparr>
      else if base = ''https://api.example.com'' \<and> path = ''/users?page=1''
        then Some \<lparr>href_base = ''https://api.example.com/users'', query = Some ''page=1'',
                   searchParams = [(''page'', ''1'')], fragment = None\<rparr>
      else None)"

text \<open>\<open>Number::toString\<close> on the numbers of the examples that are not safe integers:
  \<open>1e21\<close> and one half.\<close>

definition example_Number_digits :: "rat \<Rightarrow> string" where
  "example_Number_digits q =
     (if q = 10 ^ 21 then ''1e+21'' else if q = 1 / 2 then ''0.5'' else [])"

text \<open>A Node runtime with no environment variable set and no ambient \<open>fetch\<close>, whose
  clock starts at a fixed instant.\<close>

definition example_runtime :: platform where
  "example_runtime =
     \<lparr> process_env = Some (\<lambda>key. None), global_fetch = None, URL_parse = example_URL_parse,
       Date_now = (\<lambda>n. 1700000000000 + int n), base64 = (\<lambda>s. Inr (Buffer_base64 s)),
       Number_digits = example_Number_digits \<rparr>"



text \<open>A configuration and request options with nothing set.\<close>

definition no_config :: ClientConfig where
  "no_config =
     \<lparr> cfg_endpoint = None, cfg_bearerToken = None, cfg_apiKey = None, cfg_userId = None,
       cfg_secret = None, cfg_fetch = None, cfg_retries = None, cfg_retryDelay = None \<rparr>"

definition no_options :: RequestOptions where
  "no_options = \<lparr>opt_method = None, opt_body = None, opt_params = None, opt_headers = None\<rparr>"

text \<open>The client that \<open>new ApiClient({ endpoint: 'https://api.example.com', fetch: f,
  retries: n })\<close> constructs on that runtime, for an integer \<open>n\<close>.\<close>

definition example_client :: "fetch \<Rightarrow> int \<Rightarrow> ApiClient" where
  "example_client f n =
     \<lparr> endpoint = ''https://api.example.com'', bearerToken = None, apiKey = None,
       userId = None, secret = None, fetchFn = Some f, retries = Finite (of_int n),
       retryDelay = 1000 \<rparr>"

text \<open>Transports that answer every invocation alike: with a response of a given status
  and body, or with a given exception.\<close>

definition responding :: "int \<Rightarrow> json option \<Rightarrow> fetch" where
  "responding s b = (\<lambda>n call. \<lparr>settled = Resolves \<lparr>resp_status = s, resp_json = b\<rparr>, token_update = None\<rparr>)"

definition rejecting :: "thrown \<Rightarrow> fetch" where
  "rejecting e = (\<lambda>n call. \<lparr>settled = Rejects e, token_update = None\<rparr>)"

text \<open>A transport that never answers.\<close>

definition hanging :: fetch where
  "hanging = (\<lambda>n call. \<lparr>settled = Pending, token_update = None\<rparr>)"


text \<open>A transport whose first invocation throws and whose later ones are answered with
  status 204 and no body, which does not parse as JSON.\<close>

definition recovering :: fetch where
  "recovering =
     (\<lambda>n call. if n = 0
        then \<lparr>settled = Rejects (Error ''socket hang up''), token_update = None\<rparr>
        else \<lparr>settled = Resolves \<lparr>resp_status = 204, resp_json = None\<rparr>, token_update = None\<rparr>)"


text \<open>A client with all three credentials.\<close>

definition full_client :: "fetch \<Rightarrow> int \<Rightarrow> ApiClient" where
  "full_client f n =
     (example_client f n)\<lparr> bearerToken := Some ''jwt1'', apiKey := Some ''key1'',
                            userId := Some ''u1'', secret := Some ''s1'' \<rparr>"

text \<open>The invocation that \<open>request('/users')\<close> makes on a client with no credential.\<close>

definition example_call :: fetch_call where
  "example_call =
     \<lparr> url = ''https://api.example.com/users'', method = GET,
       headers = [(''Content-Type'', ''application/json'')], body = None \<rparr>"

subsection \<open>Notions for the statements\<close>

text \<open>A header name in lower case: header names are compared without regard to
  case.\<close>

definition lower_char :: "char \<Rightarrow> char" where
  "lower_char c =
     (if (0x41 :: nat) \<le> of_char c \<and> (of_char c :: nat) \<le> 0x5A
      then char_of (of_char c + (32 :: nat)) else c)"

definition lowercase :: "string \<Rightarrow> string" where
  "lowercase s = map lower_char s"

text \<open>The three credential header names, in whatever case they are written.\<close>

definition credential_header :: "string \<Rightarrow> bool" where
  "credential_header name =
     (lowercase name = ''authorization'' \<or> lowercase name = ''x-entrolytics-api-key''
      \<or> lowercase name = ''x-entrolytics-share-token'')"

definition credential_headers :: "(string \<times> string) list \<Rightarrow> (string \<times> string) list" where
  "credential_headers hs = filter (\<lambda>h. credential_header (fst h)) hs"

text \<open>What a request leaves behind, without the client: the envelope, the transport
  invocations and the delays.\<close>

definition outcome ::
  "(thrown + (ApiResponse \<times> state)) option
     \<Rightarrow> (thrown + (ApiResponse \<times> fetch_call list \<times> int list)) option" where
  "outcome x = map_option (\<lambda>y. case y of Inl e \<Rightarrow> Inl e | Inr (r, st) \<Rightarrow> Inr (r, calls st, sleeps st)) x"

text \<open>For each transport invocation of a request, the number of credential headers it
  carries.\<close>

definition credential_counts :: "(thrown + (ApiResponse \<times> state)) option \<Rightarrow> nat list" where
  "credential_counts x =
     (case x of
        Some (Inr (r, st)) \<Rightarrow> map (\<lambda>call. length (credential_headers (headers call))) (calls st)
      | _ \<Rightarrow> [])"





text \<open>The message that a thrown value carries, read as the words of claim C5 have it:
  the message of an \<open>Error\<close>, and the string property \<open>message\<close> of any other object
  that has one.\<close>

fun carried_message :: "thrown \<Rightarrow> string option" where
  "carried_message (Error m) = Some m"
| "carried_message (TypeError m) = Some m"
| "carried_message (NonError (JObj fs)) = string_value (map_of fs ''message'')"
| "carried_message (NonError v) = None"

text \<open>The envelope's \<open>error\<close> as claim C5 words it: the message the thrown value
  carries, or \<open>Network error\<close> when it carries none.\<close>

definition error_as_claimed :: "thrown \<Rightarrow> string" where
  "error_as_claimed e = (case carried_message e of Some m \<Rightarrow> m | None \<Rightarrow> ''Network error'')"

text \<open>The value of the last entry of \<open>es\<close> with key \<open>k\<close> whose value is not
  \<open>undefined\<close>.\<close>

fun last_defined :: "(string \<times> param_value option) list \<Rightarrow> string \<Rightarrow> param_value option" where
  "last_defined [] k = None"
| "last_defined ((key, v) # es) k =
     (case last_defined es k of
        Some x \<Rightarrow> Some x
      | None \<Rightarrow> if key = k then v else None)"

text \<open>The pairs of a query named \<open>k\<close>, in order.\<close>

definition named :: "string \<Rightarrow> (string \<times> string) list \<Rightarrow> (string \<times> string) list" where
  "named k ps = filter (\<lambda>q. fst q = k) ps"

text \<open>Some entry of \<open>es\<close> has a value other than \<open>undefined\<close>.\<close>

definition some_defined :: "(string \<times> param_value option) list \<Rightarrow> bool" where
  "some_defined es = list_ex (\<lambda>e. snd e \<noteq> None) es"

text \<open>The client once the transport invocations \<open>xs\<close>, numbered from \<open>n\<close>, have been
  answered by \<open>f\<close>: each token the transport passes to \<open>setBearerToken\<close> is in place.\<close>

fun client_after :: "fetch \<Rightarrow> nat \<Rightarrow> fetch_call list \<Rightarrow> ApiClient \<Rightarrow> ApiClient" where
  "client_after f n [] c = c"
| "client_after f n (x # xs) c =
     client_after f (Suc n) xs
       (case token_update (f n x) of None \<Rightarrow> c | Some t \<Rightarrow> setBearerToken c t)"

text \<open>The state a step ends in.\<close>

fun step_state :: "step \<Rightarrow> state" where
  "step_state (Return r st) = st"
| "step_state (Continue e st) = st"
| "step_state (Suspended st) = st"

text \<open>The \<open>k\<close>-th of the invocations \<open>cs\<close> carries the options that \<open>request\<close> builds
  from the authentication headers of the client as it is when that invocation is
  made.\<close>

definition call_derived ::
  "platform \<Rightarrow> fetch \<Rightarrow> ApiClient \<Rightarrow> string \<Rightarrow> HttpMethod \<Rightarrow> json option \<Rightarrow> (string \<times> string) list
     \<Rightarrow> fetch_call list \<Rightarrow> nat \<Rightarrow> bool" where
  "call_derived pf f c u m b hdrs cs k =
     (\<exists>now auth. getAuthHeaders pf now (client_after f 0 (take k cs) c) = Inr auth
        \<and> cs ! k = fetchOptions pf u m b hdrs auth)"

definition calls_derived ::
  "platform \<Rightarrow> fetch \<Rightarrow> ApiClient \<Rightarrow> string \<Rightarrow> HttpMethod \<Rightarrow> json option \<Rightarrow> (string \<times> string) list
     \<Rightarrow> state \<Rightarrow> bool" where
  "calls_derived pf f c u m b hdrs st =
     (client st = client_after f 0 (calls st) c \<and>
      (\<forall>k < length (calls st). call_derived pf f c u m b hdrs (calls st) k))"

text \<open>The request options as \<open>request\<close> destructures them.\<close>

definition method_of :: "RequestOptions \<Rightarrow> HttpMethod" where
  "method_of options = (case opt_method options of None \<Rightarrow> GET | Some x \<Rightarrow> x)"

definition headers_of :: "RequestOptions \<Rightarrow> (string \<times> string) list" where
  "headers_of options = (case opt_headers options of None \<Rightarrow> [] | Some h \<Rightarrow> h)"

text \<open>The invocation that \<open>request\<close> makes for the URL \<open>u\<close> and the options when the
  authentication headers are \<open>auth\<close>.\<close>

definition call_with ::
  "platform \<Rightarrow> string \<Rightarrow> RequestOptions \<Rightarrow> (string \<times> string) list \<Rightarrow> fetch_call" where
  "call_with pf u options auth =
     fetchOptions pf u (method_of options) (opt_body options) (headers_of options) auth"

subsection \<open>The retry count during a request\<close>

text \<open>The retry count is not changed by an attempt.\<close>

lemma retries_setBearerToken: "retries (setBearerToken c t) = retries c"
  by (simp add: setBearerToken_def)

lemma retries_awaited: "retries (client (awaited r call st)) = retries (client st)"
  by (simp add: awaited_def retries_setBearerToken split: option.splits)



lemma on_response_throw_state:
  "on_response pf attempt response st = Inl (x, st') \<Longrightarrow> st' = st"
  by (auto simp: on_response_def Let_def split: sum.splits if_splits)




text \<open>Below \<open>2^53\<close> the counter counts, and a bounded retry count keeps it there.\<close>

lemma increment_Suc: "int a < 9007199254740992 \<Longrightarrow> increment a = Suc a"
  by (simp add: increment_def)

lemma less_eq_number_Finite_int: "less_eq_number a (Finite (of_int R)) \<longleftrightarrow> int a \<le> R"
proof -
  have "(of_nat a :: rat) = of_int (int a)" by simp
  then show ?thesis by (simp only: less_eq_number.simps of_int_le_iff)
qed

lemma less_number_Finite_int: "less_number a (Finite (of_int R)) \<longleftrightarrow> int a < R"
proof -
  have "(of_nat a :: rat) = of_int (int a)" by simp
  then show ?thesis by (simp only: less_number.simps of_int_less_iff)
qed

lemma less_eq_number_retries:
  "retries c = Finite (of_int R) \<Longrightarrow> less_eq_number a (retries c) \<longleftrightarrow> int a \<le> R"
  by (simp only: less_eq_number_Finite_int)

lemma less_number_retries:
  "retries c = Finite (of_int R) \<Longrightarrow> less_number a (retries c) \<longleftrightarrow> int a < R"
  by (simp only: less_number_Finite_int)


lemma less_number_less_eq: "less_number a x \<Longrightarrow> less_eq_number a x"
  by (cases x) auto


subsection \<open>The state during a request\<close>

lemma fetchFn_setBearerToken: "fetchFn (setBearerToken c t) = fetchFn c"
  by (simp add: setBearerToken_def)

lemma retryDelay_setBearerToken: "retryDelay (setBearerToken c t) = retryDelay c"
  by (simp add: setBearerToken_def)

lemma retryDelay_awaited: "retryDelay (client (awaited r call st)) = retryDelay (client st)"
  by (simp add: awaited_def retryDelay_setBearerToken split: option.splits)

lemma fetchFn_awaited: "fetchFn (client (awaited r call st)) = fetchFn (client st)"
  by (simp add: awaited_def fetchFn_setBearerToken split: option.splits)

lemma calls_awaited: "calls (awaited r call st) = calls st @ [call]"
  by (simp add: awaited_def)

lemma sleeps_awaited: "sleeps (awaited r call st) = sleeps st"
  by (simp add: awaited_def)

lemma calls_sleep: "calls (sleep ms st) = calls st"
  by (simp add: sleep_def)

lemma sleeps_sleep: "sleeps (sleep ms st) = sleeps st @ [ms]"
  by (simp add: sleep_def)

lemma client_sleep: "client (sleep ms st) = client st"
  by (simp add: sleep_def)

lemma client_after_snoc:
  "client_after f n (xs @ [x]) c =
     (case token_update (f (n + length xs) x) of
        None \<Rightarrow> client_after f n xs c
      | Some t \<Rightarrow> setBearerToken (client_after f n xs c) t)"
  by (induction xs arbitrary: n c) (auto split: option.splits)


lemma fetchFn_client_after: "fetchFn (client_after f n xs c) = fetchFn c"
  by (induction xs arbitrary: n c) (auto simp: fetchFn_setBearerToken split: option.splits)

lemma retries_client_after: "retries (client_after f n xs c) = retries c"
  by (induction xs arbitrary: n c) (auto simp: retries_setBearerToken split: option.splits)

lemma retryDelay_client_after: "retryDelay (client_after f n xs c) = retryDelay c"
  by (induction xs arbitrary: n c) (auto simp: retryDelay_setBearerToken split: option.splits)

subsection \<open>Deriving the authentication headers\<close>

lemma getAuthHeaders_total:
  assumes "\<And>s. \<exists>t. base64 pf s = Inr t"
  shows "\<exists>auth. getAuthHeaders pf now c = Inr auth"
proof -
  obtain t where
    "base64 pf (JSON_stringify pf (JObj [(''userId'', JStr (string_of (userId c))),
                                      (''timestamp'', JNum now)])) = Inr t"
    using assms by blast
  then show ?thesis
    by (simp add: getAuthHeaders_def createShareToken_def)
qed

lemma getAuthHeaders_bearer:
  "tok \<noteq> [] \<Longrightarrow> bearerToken c = Some tok \<Longrightarrow>
   getAuthHeaders pf now c = Inr [(''Authorization'', ''Bearer '' @ tok)]"
  by (simp add: getAuthHeaders_def)


lemma credential_header_names:
  "credential_header ''Authorization''" "credential_header ''x-entrolytics-api-key''"
  "credential_header ''x-entrolytics-share-token''" "\<not> credential_header ''Content-Type''"
  by code_simp+

text \<open>The header derived is the one of the first credential the client has, in the
  order bearer token, API key, user id with secret.\<close>

lemma getAuthHeaders_priority:
  assumes "getAuthHeaders pf now c = Inr auth"
  shows "(truthy_str (bearerToken c) \<longrightarrow>
            auth = [(''Authorization'', ''Bearer '' @ string_of (bearerToken c))])
       \<and> (\<not> truthy_str (bearerToken c) \<and> truthy_str (apiKey c) \<longrightarrow>
            auth = [(''x-entrolytics-api-key'', string_of (apiKey c))])
       \<and> (\<not> truthy_str (bearerToken c) \<and> \<not> truthy_str (apiKey c)
            \<and> truthy_str (userId c) \<and> truthy_str (secret c) \<longrightarrow>
            (\<exists>t. createShareToken pf now c = Inr t \<and> auth = [(''x-entrolytics-share-token'', t)]))
       \<and> (\<not> truthy_str (bearerToken c) \<and> \<not> truthy_str (apiKey c)
            \<and> \<not> (truthy_str (userId c) \<and> truthy_str (secret c)) \<longrightarrow> auth = [])"
  using assms by (auto simp: getAuthHeaders_def split: if_splits sum.splits)

lemma getAuthHeaders_shape:
  assumes "getAuthHeaders pf now c = Inr auth"
  shows "(truthy_str (bearerToken c) \<or> truthy_str (apiKey c)
            \<or> (truthy_str (userId c) \<and> truthy_str (secret c)))
         \<and> (\<exists>k v. auth = [(k, v)] \<and> credential_header k)
         \<or> \<not> (truthy_str (bearerToken c) \<or> truthy_str (apiKey c)
            \<or> (truthy_str (userId c) \<and> truthy_str (secret c))) \<and> auth = []"
  using assms
  by (auto simp: getAuthHeaders_def credential_header_names split: if_splits sum.splits)

lemma credential_headers_update:
  "\<not> credential_header k \<Longrightarrow> credential_headers (AList.update k v al) = credential_headers al"
  by (induction al) (auto simp: credential_headers_def)

lemma credential_headers_spread:
  "list_all (\<lambda>h. \<not> credential_header (fst h)) src \<Longrightarrow>
   credential_headers (spread obj src) = credential_headers obj"
  unfolding spread_def
  by (induction src arbitrary: obj) (auto simp: credential_headers_update)

lemma credential_headers_content_type:
  "credential_header k \<Longrightarrow>
   credential_headers (spread [(''Content-Type'', ''application/json'')] [(k, v)]) = [(k, v)]"
  using credential_header_names(4) by (auto simp: spread_def credential_headers_def)

text \<open>The value of a header after a spread: the last the source writes under the name,
  else that of the object.\<close>

lemma map_of_spread:
  "map_of (spread obj src) name =
     (case map_of (rev src) name of Some v \<Rightarrow> Some v | None \<Rightarrow> map_of obj name)"
proof (induction src arbitrary: obj rule: rev_induct)
  case Nil
  then show ?case by (simp add: spread_def)
next
  case (snoc p src)
  obtain k v where p: "p = (k, v)" by (cases p)
  have "spread obj (src @ [p]) = AList.update k v (spread obj src)"
    by (simp add: spread_def p)
  then show ?case using snoc by (simp add: update_conv' p)
qed

subsection \<open>One attempt\<close>

lemma body_text_truthy: "truthy (Some v) \<Longrightarrow> body_text pf (Some v) = Some (JSON_stringify pf v)"
  by (simp add: body_text_def)

lemma body_text_falsy: "\<not> truthy b \<Longrightarrow> body_text pf b = None"
  by (auto simp: body_text_def split: option.splits)

lemma errorMessage_object:
  "errorMessage pf (JObj fs) s =
     Inr (case string_value (map_of fs ''error'') of
            Some e \<Rightarrow> e
          | None \<Rightarrow> (case string_value (map_of fs ''message'') of
                        Some m \<Rightarrow> m
                      | None \<Rightarrow> ''HTTP '' @ String_integer pf s))"
  by (simp add: errorMessage_def split: option.splits)

lemma errorMessage_other:
  "d \<noteq> JNull \<Longrightarrow> (\<And>fs. d \<noteq> JObj fs) \<Longrightarrow> errorMessage pf d s = Inr (''HTTP '' @ String_integer pf s)"
  by (cases d) (auto simp: errorMessage_def)

lemma errorMessage_defined: "d \<noteq> JNull \<Longrightarrow> \<exists>msg. errorMessage pf d s = Inr msg"
  by (cases d) (simp_all add: errorMessage_def split: option.splits)

lemma isRetryable_iff: "isRetryable s \<longleftrightarrow> s = 0 \<or> s = 429 \<or> 500 \<le> s"
  by (auto simp: isRetryable_def)

lemma isRetryable_not_ok: "isRetryable (resp_status r) \<Longrightarrow> \<not> resp_ok r"
  by (auto simp: isRetryable_def resp_ok_def)

lemma on_response_ok:
  "resp_ok r \<Longrightarrow>
   on_response pf a r st = Inr (Return (success (resp_status r)
                                      (case resp_json r of None \<Rightarrow> JObj [] | Some v \<Rightarrow> v)) st)"
  by (simp add: on_response_def)

lemma on_response_failure:
  "\<not> resp_ok r \<Longrightarrow>
   errorMessage pf (case resp_json r of None \<Rightarrow> JObj [] | Some v \<Rightarrow> v) (resp_status r) = Inr msg \<Longrightarrow>
   on_response pf a r st =
     Inr (if isRetryable (resp_status r) \<and> less_number a (retries (client st))
          then Continue (failure (resp_status r) msg) (sleep (retryDelay (client st) * 2 ^ a) st)
          else Return (failure (resp_status r) msg) st)"
  by (simp add: on_response_def Let_def)

lemma on_response_null:
  "\<not> resp_ok r \<Longrightarrow> resp_json r = Some JNull \<Longrightarrow>
   on_response pf a r st =
     Inl (TypeError (''Cannot read properties of null (reading '' @ [CHR 0x27] @ ''error'' @ [CHR 0x27] @ '')''), st)"
  by (simp add: on_response_def errorMessage_def)

lemma on_response_state:
  "on_response pf a r st = Inr s \<Longrightarrow> step_state s = st \<or> (\<exists>ms. step_state s = sleep ms st)"
  by (auto simp: on_response_def Let_def split: sum.splits if_splits)

lemma attempt_step_resolves:
  assumes "getAuthHeaders pf (Date_now pf a) (client st) = Inr auth"
    and "fetchFn (client st) = Some f"
    and "settled (f (length (calls st)) (fetchOptions pf u m b hdrs auth)) = Resolves r"
  shows "attempt_step pf u m b hdrs a st =
     (case on_response pf a r (awaited (f (length (calls st)) (fetchOptions pf u m b hdrs auth))
                              (fetchOptions pf u m b hdrs auth) st) of
        Inr s \<Rightarrow> s
      | Inl (e, st') \<Rightarrow> catch_block a e st')"
  using assms by (simp add: attempt_step_def try_attempt_def Let_def)

lemma attempt_step_rejecting:
  assumes enc: "\<And>s. \<exists>t. base64 pf s = Inr t"
    and rej: "\<And>n x. \<exists>e. settled (f n x) = Rejects e"
    and ff: "fetchFn (client st) = Some f"
  shows "\<exists>call e. settled (f (length (calls st)) call) = Rejects e \<and>
           attempt_step pf u m b hdrs a st =
             Continue (failure 0 (if instanceof_Error e then message e else ''Network error''))
               (if less_number a (retries (client st))
                then sleep (retryDelay (client st) * 2 ^ a) (awaited (f (length (calls st)) call) call st)
                else awaited (f (length (calls st)) call) call st)"
proof -
  obtain auth where auth: "getAuthHeaders pf (Date_now pf a) (client st) = Inr auth"
    using getAuthHeaders_total[OF enc] by blast
  let ?call = "fetchOptions pf u m b hdrs auth"
  obtain e where e: "settled (f (length (calls st)) ?call) = Rejects e"
    using rej by blast
  have "attempt_step pf u m b hdrs a st = catch_block a e (awaited (f (length (calls st)) ?call) ?call st)"
    using auth ff e by (simp add: attempt_step_def try_attempt_def Let_def)
  then show ?thesis using e
    by (auto simp: catch_block_def Let_def retries_awaited retryDelay_awaited)
qed





lemma attempt_step_rejects:
  assumes "getAuthHeaders pf (Date_now pf a) (client st) = Inr auth"
    and "fetchFn (client st) = Some f"
    and "settled (f (length (calls st)) (fetchOptions pf u m b hdrs auth)) = Rejects e"
  shows "attempt_step pf u m b hdrs a st =
     Continue (failure 0 (if instanceof_Error e then message e else ''Network error''))
       (if less_number a (retries (client st))
        then sleep (retryDelay (client st) * 2 ^ a)
               (awaited (f (length (calls st)) (fetchOptions pf u m b hdrs auth))
                  (fetchOptions pf u m b hdrs auth) st)
        else awaited (f (length (calls st)) (fetchOptions pf u m b hdrs auth))
               (fetchOptions pf u m b hdrs auth) st)"
  using assms
  by (simp add: attempt_step_def try_attempt_def catch_block_def Let_def retries_awaited retryDelay_awaited)

subsection \<open>Every invocation is derived from the client as it then is\<close>

lemma call_derived_append:
  "k < length cs \<Longrightarrow> call_derived pf f c u m b hdrs (cs @ ys) k = call_derived pf f c u m b hdrs cs k"
  by (simp add: call_derived_def nth_append)

lemma calls_derived_sleep: "calls_derived pf f c u m b hdrs (sleep ms st) = calls_derived pf f c u m b hdrs st"
  by (simp add: calls_derived_def sleep_def)

lemma calls_derived_awaited:
  assumes "calls_derived pf f c u m b hdrs st" "fetchFn c = Some f"
    and "getAuthHeaders pf now (client st) = Inr auth"
  shows "calls_derived pf f c u m b hdrs
           (awaited (f (length (calls st)) (fetchOptions pf u m b hdrs auth)) (fetchOptions pf u m b hdrs auth) st)"
proof -
  let ?call = "fetchOptions pf u m b hdrs auth"
  let ?st1 = "awaited (f (length (calls st)) ?call) ?call st"
  have c: "calls ?st1 = calls st @ [?call]" by (simp add: awaited_def)
  have cl: "client ?st1 = client_after f 0 (calls ?st1) c"
    using assms(1) by (auto simp: client_after_snoc calls_derived_def awaited_def split: option.splits)
  have "call_derived pf f c u m b hdrs (calls ?st1) k" if "k < length (calls ?st1)" for k
  proof (cases "k < length (calls st)")
    case True
    then show ?thesis using assms(1) by (simp add: c call_derived_append calls_derived_def)
  next
    case False
    then have "k = length (calls st)" using that by (simp add: c)
    then show ?thesis using assms(1,3) by (auto simp: c call_derived_def calls_derived_def)
  qed
  then show ?thesis using cl by (simp add: calls_derived_def)
qed

lemma calls_derived_try_attempt:
  assumes "calls_derived pf f c u m b hdrs st" "fetchFn c = Some f"
  shows "case try_attempt pf u m b hdrs a st of
           Inl (e, st') \<Rightarrow> calls_derived pf f c u m b hdrs st'
         | Inr s \<Rightarrow> calls_derived pf f c u m b hdrs (step_state s)"
proof -
  have ff: "fetchFn (client st) = Some f"
    using assms by (simp add: calls_derived_def fetchFn_client_after)
  show ?thesis
  proof (cases "getAuthHeaders pf (Date_now pf a) (client st)")
    case (Inl e)
    then show ?thesis using assms by (simp add: try_attempt_def)
  next
    case (Inr auth)
    let ?call = "fetchOptions pf u m b hdrs auth"
    let ?st1 = "awaited (f (length (calls st)) ?call) ?call st"
    have i1: "calls_derived pf f c u m b hdrs ?st1" using calls_derived_awaited[OF assms Inr] .
    show ?thesis
    proof (cases "settled (f (length (calls st)) ?call)")
      case (Rejects e)
      then show ?thesis using Inr ff i1 by (simp add: try_attempt_def Let_def)
    next
      case Pending
      then show ?thesis using Inr ff i1 by (simp add: try_attempt_def Let_def)
    next
      case (Resolves r)
      show ?thesis
      proof (cases "on_response pf a r ?st1")
        case (Inl x)
        obtain e st' where x: "x = (e, st')" by (cases x)
        have "st' = ?st1" using Inl x on_response_throw_state by blast
        then show ?thesis using Inl x Inr ff i1 Resolves
          by (simp add: try_attempt_def Let_def)
      next
        case (Inr s)
        then show ?thesis using \<open>getAuthHeaders pf (Date_now pf a) (client st) = Inr auth\<close> ff i1 Resolves on_response_state[OF Inr]
          by (auto simp: try_attempt_def Let_def calls_derived_sleep)
      qed
    qed
  qed
qed

lemma calls_derived_attempt_step:
  assumes "calls_derived pf f c u m b hdrs st" "fetchFn c = Some f"
  shows "calls_derived pf f c u m b hdrs (step_state (attempt_step pf u m b hdrs a st))"
  using calls_derived_try_attempt[OF assms, of a]
  by (auto simp: attempt_step_def catch_block_def Let_def calls_derived_sleep split: sum.splits prod.splits)

lemma calls_derived_request_loop:
  assumes "request_loop pf u m b hdrs a le st = Some y"
    and "calls_derived pf f c u m b hdrs st" and "fetchFn c = Some f"
  shows "calls_derived pf f c u m b hdrs (snd y)"
  using assms
proof (induction rule: request_loop.raw_induct[rotated 1, consumes 1])
  case (1 loop pf u m b hdrs attempt lastError st y)
  show ?case
  proof (cases "less_eq_number attempt (retries (client st))")
    case False
    then show ?thesis using 1(2,3) by (auto split: option.splits)
  next
    case True
    show ?thesis
    proof (cases "attempt_step pf u m b hdrs attempt st")
      case (Return r st')
      then show ?thesis using True 1(2) calls_derived_attempt_step[OF 1(3,4), of attempt]
        by auto
    next
      case (Continue e st')
      have "calls_derived pf f c u m b hdrs st'"
        using calls_derived_attempt_step[OF 1(3,4), of attempt] Continue by simp
      moreover have "loop pf u m b hdrs (increment attempt) (Some e) st' = Some y"
        using True Continue 1(2) by simp
      ultimately show ?thesis using 1(1) 1(4) by blast
    next
      case (Suspended st')
      then show ?thesis using True 1(2) by simp
    qed
  qed
qed

lemma request_calls_derived:
  assumes "request pf c path options = Some (Inr (r, st))" and "fetchFn c = Some f"
  shows "\<exists>u. buildUrl pf c path (opt_params options) = Inr u \<and>
           calls_derived pf f c u (case opt_method options of None \<Rightarrow> GET | Some x \<Rightarrow> x)
             (opt_body options) (case opt_headers options of None \<Rightarrow> [] | Some h \<Rightarrow> h) st"
proof (cases "buildUrl pf c path (opt_params options)")
  case (Inl e)
  then show ?thesis using assms(1) by (simp add: request_def)
next
  case (Inr u)
  let ?m = "case opt_method options of None \<Rightarrow> GET | Some x \<Rightarrow> x"
  let ?h = "case opt_headers options of None \<Rightarrow> [] | Some h \<Rightarrow> h"
  have i0: "calls_derived pf f c u ?m (opt_body options) ?h \<lparr>client = c, calls = [], sleeps = []\<rparr>"
    by (simp add: calls_derived_def)
  have "request_loop pf u ?m (opt_body options) ?h 0 None \<lparr>client = c, calls = [], sleeps = []\<rparr> = Some (r, st)"
    using assms(1) Inr by (auto simp: request_def Let_def)
  from calls_derived_request_loop[OF this i0 assms(2)]
  show ?thesis using Inr by simp
qed


lemma request_calls_fields:
  assumes "request pf c path options = Some (Inr (r, st))" and "fetchFn c = Some f" and "k < length (calls st)"
  shows "buildUrl pf c path (opt_params options) = Inr (url (calls st ! k))
       \<and> method (calls st ! k) = (case opt_method options of None \<Rightarrow> GET | Some x \<Rightarrow> x)
       \<and> body (calls st ! k) = body_text pf (opt_body options)"
proof -
  obtain u where u: "buildUrl pf c path (opt_params options) = Inr u"
    and cd: "calls_derived pf f c u (case opt_method options of None \<Rightarrow> GET | Some x \<Rightarrow> x)
             (opt_body options) (case opt_headers options of None \<Rightarrow> [] | Some h \<Rightarrow> h) st"
    using request_calls_derived[OF assms(1,2)] by blast
  have "call_derived pf f c u (case opt_method options of None \<Rightarrow> GET | Some x \<Rightarrow> x)
             (opt_body options) (case opt_headers options of None \<Rightarrow> [] | Some h \<Rightarrow> h) (calls st) k"
    using cd assms(3) by (simp add: calls_derived_def)
  then show ?thesis using u by (auto simp: call_derived_def fetchOptions_def)
qed

subsection \<open>Requests whose attempts all end alike\<close>

lemma request_loop_uniform:
  assumes step: "\<And>a st. fetchFn (client st) = Some f \<Longrightarrow> retries (client st) = Finite (of_int R) \<Longrightarrow>
      int a \<le> R \<Longrightarrow>
      \<exists>call e. Q (length (calls st)) call e \<and>
        (if int a < R
         then attempt_step pf u m b hdrs a st =
                Continue e (sleep (retryDelay (client st) * 2 ^ a) (awaited (f (length (calls st)) call) call st))
         else attempt_step pf u m b hdrs a st = Continue e (awaited (f (length (calls st)) call) call st)
            \<or> attempt_step pf u m b hdrs a st = Return e (awaited (f (length (calls st)) call) call st))"
    and bd: "R < 9007199254740992"
    and ff: "fetchFn (client st) = Some f"
    and rt: "retries (client st) = Finite (of_int R)"
    and le: "int a \<le> R"
  shows "\<exists>new r st'. request_loop pf u m b hdrs a lastError st = Some (r, st')
           \<and> calls st' = calls st @ new
           \<and> length new = nat (R + 1 - int a)
           \<and> sleeps st' = sleeps st @ map (\<lambda>k. retryDelay (client st) * 2 ^ k) [a ..< nat R]
           \<and> Q (length (calls st @ new) - 1) (last new) r"
  using ff rt le
proof (induction "nat (R - int a)" arbitrary: a st lastError)
  case 0
  then have eq: "R = int a" by simp
  obtain call e where q: "Q (length (calls st)) call e"
    and step': "attempt_step pf u m b hdrs a st = Continue e (awaited (f (length (calls st)) call) call st)
            \<or> attempt_step pf u m b hdrs a st = Return e (awaited (f (length (calls st)) call) call st)"
    using step[OF "0.prems"(1,2), of a] eq by auto
  let ?st1 = "awaited (f (length (calls st)) call) call st"
  have here: "less_eq_number a (retries (client st))"
    using eq by (simp add: less_eq_number_retries[OF "0.prems"(2)])
  have inc: "increment a = Suc a"
    using bd eq by (intro increment_Suc) simp
  have after: "\<not> less_eq_number (Suc a) (retries (client ?st1))"
    using eq by (simp add: less_eq_number_retries[of "client ?st1" R] retries_awaited "0.prems"(2))
  have r: "request_loop pf u m b hdrs a lastError st = Some (e, ?st1)"
    using step' here after inc
    by (auto simp: request_loop.simps[of pf u m b hdrs a] request_loop.simps[of pf u m b hdrs "Suc a"])
  show ?case
    apply (rule exI[of _ "[call]"])
    using q eq by (simp add: r calls_awaited sleeps_awaited)
next
  case (Suc n)
  then have lt: "int a < R" by linarith
  obtain call e0 where step': "attempt_step pf u m b hdrs a st =
             Continue e0 (sleep (retryDelay (client st) * 2 ^ a) (awaited (f (length (calls st)) call) call st))"
    using step[OF Suc.prems(1,2), of a] lt by auto
  let ?st2 = "sleep (retryDelay (client st) * 2 ^ a) (awaited (f (length (calls st)) call) call st)"
  have R: "retries (client ?st2) = Finite (of_int R)"
    and D: "retryDelay (client ?st2) = retryDelay (client st)"
    and F: "fetchFn (client ?st2) = Some f"
    and C: "calls ?st2 = calls st @ [call]"
    and S: "sleeps ?st2 = sleeps st @ [retryDelay (client st) * 2 ^ a]"
    using Suc.prems(1,2)
    by (simp_all add: client_sleep retries_awaited retryDelay_awaited fetchFn_awaited
                      calls_sleep calls_awaited sleeps_sleep sleeps_awaited)
  have here: "less_eq_number a (retries (client st))"
    using lt by (simp add: less_eq_number_retries[OF Suc.prems(2)])
  have inc: "increment a = Suc a"
    using bd lt by (intro increment_Suc) simp
  have r: "request_loop pf u m b hdrs a lastError st = request_loop pf u m b hdrs (Suc a) (Some e0) ?st2"
    using here step' inc by (simp add: request_loop.simps[of pf u m b hdrs a])
  have n: "n = nat (R - int (Suc a))" using Suc.hyps(2) by linarith
  have le': "int (Suc a) \<le> R" using lt by simp
  obtain new r' st' where
    0: "request_loop pf u m b hdrs (Suc a) (Some e0) ?st2 = Some (r', st')"
    and 1: "calls st' = calls ?st2 @ new"
    and 2: "length new = nat (R + 1 - int (Suc a))"
    and 3: "sleeps st' = sleeps ?st2 @ map (\<lambda>k. retryDelay (client ?st2) * 2 ^ k) [Suc a ..< nat R]"
    and 4: "Q (length (calls ?st2 @ new) - 1) (last new) r'"
    using Suc.hyps(1)[OF n F R le', of "Some e0"] by blast
  have ne: "new \<noteq> []" using 2 le' by auto
  have upt: "[a ..< nat R] = a # [Suc a ..< nat R]"
    using lt by (simp add: upt_conv_Cons)
  show ?case
    apply (rule exI[of _ "call # new"])
    apply (rule exI[of _ r'])
    apply (rule exI[of _ st'])
    using 0 1 2 3 4 ne lt by (simp add: r C S D upt)
qed

lemma request_loop_rejecting:
  assumes enc: "\<And>s. \<exists>t. base64 pf s = Inr t"
    and rej: "\<And>n x. \<exists>e. settled (f n x) = Rejects e"
    and bd: "R < 9007199254740992"
    and ff: "fetchFn (client st) = Some f"
    and rt: "retries (client st) = Finite (of_int R)"
    and le: "int a \<le> R"
  shows "\<exists>new e r st'. request_loop pf u m b hdrs a lastError st = Some (r, st')
           \<and> calls st' = calls st @ new
           \<and> length new = nat (R + 1 - int a)
           \<and> sleeps st' = sleeps st @ map (\<lambda>k. retryDelay (client st) * 2 ^ k) [a ..< nat R]
           \<and> settled (f (length (calls st @ new) - 1) (last new)) = Rejects e
           \<and> r = failure 0 (if instanceof_Error e then message e else ''Network error'')"
proof -
  define Q where "Q = (\<lambda>n call r. \<exists>e. settled (f n call) = Rejects e
       \<and> r = failure 0 (if instanceof_Error e then message e else ''Network error''))"
  have step: "\<exists>call r. Q (length (calls st)) call r \<and>
        (if int a < R
         then attempt_step pf u m b hdrs a st =
                Continue r (sleep (retryDelay (client st) * 2 ^ a) (awaited (f (length (calls st)) call) call st))
         else attempt_step pf u m b hdrs a st = Continue r (awaited (f (length (calls st)) call) call st)
            \<or> attempt_step pf u m b hdrs a st = Return r (awaited (f (length (calls st)) call) call st))"
    if ff': "fetchFn (client st) = Some f" and rt': "retries (client st) = Finite (of_int R)"
      and "int a \<le> R" for a st
  proof -
    obtain call e where e: "settled (f (length (calls st)) call) = Rejects e"
      and s: "attempt_step pf u m b hdrs a st =
             Continue (failure 0 (if instanceof_Error e then message e else ''Network error''))
               (if less_number a (retries (client st))
                then sleep (retryDelay (client st) * 2 ^ a) (awaited (f (length (calls st)) call) call st)
                else awaited (f (length (calls st)) call) call st)"
      using attempt_step_rejecting[OF enc rej ff', of u m b hdrs a] by blast
    have lt: "less_number a (retries (client st)) \<longleftrightarrow> int a < R"
      by (rule less_number_retries[OF rt'])
    have "Q (length (calls st)) call (failure 0 (if instanceof_Error e then message e else ''Network error''))"
      unfolding Q_def using e by blast
    then show ?thesis
      using s lt
      by (intro exI[of _ call]
            exI[of _ "failure 0 (if instanceof_Error e then message e else ''Network error'')"])
         (simp split: if_splits)
  qed
  show ?thesis
    using request_loop_uniform[of f R Q pf u m b hdrs st a lastError, OF step bd ff rt le]
    unfolding Q_def by blast
qed

lemma request_loop_retryable_status:
  assumes enc: "\<And>s. \<exists>t. base64 pf s = Inr t"
    and resp: "\<And>n x. \<exists>r. settled (f n x) = Resolves r \<and> isRetryable (resp_status r) \<and> resp_json r \<noteq> Some JNull"
    and bd: "R < 9007199254740992"
    and ff: "fetchFn (client st) = Some f"
    and rt: "retries (client st) = Finite (of_int R)"
    and le: "int a \<le> R"
  shows "\<exists>new rsp msg r st'. request_loop pf u m b hdrs a lastError st = Some (r, st')
           \<and> calls st' = calls st @ new
           \<and> length new = nat (R + 1 - int a)
           \<and> sleeps st' = sleeps st @ map (\<lambda>k. retryDelay (client st) * 2 ^ k) [a ..< nat R]
           \<and> settled (f (length (calls st @ new) - 1) (last new)) = Resolves rsp
           \<and> errorMessage pf (case resp_json rsp of None \<Rightarrow> JObj [] | Some v \<Rightarrow> v) (resp_status rsp) = Inr msg
           \<and> r = failure (resp_status rsp) msg"
proof -
  define Q where "Q = (\<lambda>n call e. \<exists>r msg. settled (f n call) = Resolves r
       \<and> errorMessage pf (case resp_json r of None \<Rightarrow> JObj [] | Some v \<Rightarrow> v) (resp_status r) = Inr msg
       \<and> e = failure (resp_status r) msg)"
  have step: "\<exists>call e. Q (length (calls st)) call e \<and>
        (if int a < R
         then attempt_step pf u m b hdrs a st =
                Continue e (sleep (retryDelay (client st) * 2 ^ a) (awaited (f (length (calls st)) call) call st))
         else attempt_step pf u m b hdrs a st = Continue e (awaited (f (length (calls st)) call) call st)
            \<or> attempt_step pf u m b hdrs a st = Return e (awaited (f (length (calls st)) call) call st))"
    if ff: "fetchFn (client st) = Some f" and rt': "retries (client st) = Finite (of_int R)"
      and "int a \<le> R" for a st
  proof -
    obtain auth where auth: "getAuthHeaders pf (Date_now pf a) (client st) = Inr auth"
      using getAuthHeaders_total[OF enc] by blast
    let ?call = "fetchOptions pf u m b hdrs auth"
    let ?st1 = "awaited (f (length (calls st)) ?call) ?call st"
    obtain r where r: "settled (f (length (calls st)) ?call) = Resolves r"
      and rt: "isRetryable (resp_status r)" and nn: "resp_json r \<noteq> Some JNull"
      using resp by blast
    have "(case resp_json r of None \<Rightarrow> JObj [] | Some v \<Rightarrow> v) \<noteq> JNull"
      using nn by (auto split: option.splits)
    then obtain msg where msg: "errorMessage pf (case resp_json r of None \<Rightarrow> JObj [] | Some v \<Rightarrow> v) (resp_status r) = Inr msg"
      using errorMessage_defined by blast
    have lt: "less_number a (retries (client ?st1)) \<longleftrightarrow> int a < R"
      by (rule less_number_retries) (simp add: retries_awaited rt')
    have "attempt_step pf u m b hdrs a st =
        (if int a < R
          then Continue (failure (resp_status r) msg) (sleep (retryDelay (client st) * 2 ^ a) ?st1)
          else Return (failure (resp_status r) msg) ?st1)"
      using rt lt
      by (simp add: attempt_step_resolves[OF auth ff r] on_response_failure[OF isRetryable_not_ok[OF rt] msg]
            retryDelay_awaited)
    moreover have "Q (length (calls st)) ?call (failure (resp_status r) msg)"
      unfolding Q_def using r msg by blast
    ultimately show ?thesis by (intro exI[of _ ?call] exI[of _ "failure (resp_status r) msg"]) simp
  qed
  show ?thesis
    using request_loop_uniform[of f R Q pf u m b hdrs st a lastError, OF step bd ff rt le]
    unfolding Q_def by blast
qed

lemma status_503_on_every_attempt:
  assumes "retries c = Finite 2" and "fetchFn c = Some f"
    and "buildUrl pf c path (opt_params options) = Inr u"
    and "\<And>s. \<exists>t. base64 pf s = Inr t"
    and "\<And>n x. \<exists>r. settled (f n x) = Resolves r \<and> resp_status r = 503 \<and> resp_json r \<noteq> Some JNull"
  shows "\<exists>r st rsp msg. request pf c path options = Some (Inr (r, st))
           \<and> length (calls st) = 3 \<and> sleeps st = [retryDelay c, retryDelay c * 2]
           \<and> settled (f 2 (calls st ! 2)) = Resolves rsp
           \<and> errorMessage pf (case resp_json rsp of None \<Rightarrow> JObj [] | Some v \<Rightarrow> v) 503 = Inr msg
           \<and> r = \<lparr>ok = False, status = 503, data = None, error = Some msg\<rparr>"
proof -
  let ?st0 = "\<lparr>client = c, calls = [], sleeps = []\<rparr>"
  let ?loop = "request_loop pf u (case opt_method options of None \<Rightarrow> GET | Some x \<Rightarrow> x)
                 (opt_body options) (case opt_headers options of None \<Rightarrow> [] | Some h \<Rightarrow> h)
                 0 None ?st0"
  have req: "request pf c path options = map_option Inr ?loop"
    using assms(3) by (simp add: request_def Let_def)
  have ff: "fetchFn (client ?st0) = Some f" and rt: "retries (client ?st0) = Finite (of_int 2)"
    and le: "int 0 \<le> 2" and bd: "(2 :: int) < 9007199254740992"
    using assms(1,2) by simp_all
  have resp: "\<exists>r. settled (f n x) = Resolves r \<and> isRetryable (resp_status r) \<and> resp_json r \<noteq> Some JNull"
    for n x
    using assms(5)[of n x] by (auto simp: isRetryable_def)
  obtain new rsp msg r st where
    0: "?loop = Some (r, st)"
    and 1: "calls st = calls ?st0 @ new"
    and 2: "length new = nat (2 + 1 - int 0)"
    and 3: "sleeps st = sleeps ?st0 @ map (\<lambda>k. retryDelay (client ?st0) * 2 ^ k) [0 ..< nat 2]"
    and 4: "settled (f (length (calls ?st0 @ new) - 1) (last new)) = Resolves rsp"
    and 5: "errorMessage pf (case resp_json rsp of None \<Rightarrow> JObj [] | Some v \<Rightarrow> v) (resp_status rsp) = Inr msg"
    and 6: "r = failure (resp_status rsp) msg"
    using request_loop_retryable_status[OF assms(4) resp bd ff rt le] by blast
  have len: "length new = 3" using 2 by simp
  then have "last new = new ! 2" by (cases new rule: rev_cases) (auto simp: nth_append)
  then have s: "settled (f 2 (calls st ! 2)) = Resolves rsp"
    using 4 1 len by simp
  then have st: "resp_status rsp = 503" using assms(5)[of 2 "calls st ! 2"] by auto
  have "[0 ..< nat 2] = [0, 1]" by (simp add: upt_rec)
  then have "sleeps st = [retryDelay c, retryDelay c * 2]" using 3 by simp
  moreover have "length (calls st) = 3" using 1 len by simp
  ultimately show ?thesis using req 0 5 6 s st unfolding failure_def by auto
qed

subsection \<open>An attempt that returns\<close>

lemma request_loop_returns:
  assumes "less_eq_number a (retries (client st))"
    and "getAuthHeaders pf (Date_now pf a) (client st) = Inr auth"
    and "fetchFn (client st) = Some f"
    and "settled (f (length (calls st)) (fetchOptions pf u m b hdrs auth)) = Resolves r"
    and "on_response pf a r (awaited (f (length (calls st)) (fetchOptions pf u m b hdrs auth))
                               (fetchOptions pf u m b hdrs auth) st) = Inr (Return e st1)"
  shows "request_loop pf u m b hdrs a lastError st = Some (e, st1)"
  using assms(1,5)
  by (simp add: request_loop.simps[of pf u m b hdrs a] attempt_step_resolves[OF assms(2,3,4)])

lemma request_returns_at_first_attempt:
  assumes url: "buildUrl pf c path (opt_params options) = Inr u"
    and le: "less_eq_number 0 (retries c)"
    and auth: "getAuthHeaders pf (Date_now pf 0) c = Inr auth"
    and ff: "fetchFn c = Some f"
    and res: "settled (f 0 (fetchOptions pf u (method_of options) (opt_body options)
                              (headers_of options) auth)) = Resolves r"
    and ret: "\<And>st1. on_response pf 0 r st1 = Inr (Return e st1)"
  shows "\<exists>st. request pf c path options = Some (Inr (e, st))
           \<and> calls st = [fetchOptions pf u (method_of options) (opt_body options)
                            (headers_of options) auth]
           \<and> sleeps st = []"
proof -
  let ?st0 = "\<lparr>client = c, calls = [], sleeps = []\<rparr>"
  let ?call = "fetchOptions pf u (method_of options) (opt_body options) (headers_of options) auth"
  let ?st1 = "awaited (f (length (calls ?st0)) ?call) ?call ?st0"
  have 1: "less_eq_number 0 (retries (client ?st0))" using le by simp
  have 2: "getAuthHeaders pf (Date_now pf 0) (client ?st0) = Inr auth" using auth by simp
  have 3: "fetchFn (client ?st0) = Some f" using ff by simp
  have 4: "settled (f (length (calls ?st0)) ?call) = Resolves r" using res by simp
  have "request_loop pf u (method_of options) (opt_body options) (headers_of options) 0 None ?st0
          = Some (e, ?st1)"
    by (rule request_loop_returns[OF 1 2 3 4 ret])
  then have "request pf c path options = Some (Inr (e, ?st1))"
    using url by (simp add: request_def Let_def method_of_def headers_of_def)
  moreover have "calls ?st1 = [?call]" "sleeps ?st1 = []"
    by (simp_all add: calls_awaited sleeps_awaited)
  ultimately show ?thesis by blast
qed

lemma terminal_status_returns_at_once:
  assumes "buildUrl pf c path (opt_params options) = Inr u"
    and "less_eq_number 0 (retries c)"
    and "getAuthHeaders pf (Date_now pf 0) c = Inr auth"
    and "fetchFn c = Some f"
    and "settled (f 0 (fetchOptions pf u (method_of options) (opt_body options)
                         (headers_of options) auth)) = Resolves r"
    and "\<not> resp_ok r" and "\<not> isRetryable (resp_status r)"
    and "errorMessage pf (case resp_json r of None \<Rightarrow> JObj [] | Some v \<Rightarrow> v) (resp_status r) = Inr msg"
  shows "\<exists>st. request pf c path options = Some (Inr (failure (resp_status r) msg, st))
           \<and> calls st = [fetchOptions pf u (method_of options) (opt_body options)
                            (headers_of options) auth]
           \<and> sleeps st = []"
proof -
  have ret: "on_response pf 0 r st1 = Inr (Return (failure (resp_status r) msg) st1)" for st1
    using on_response_failure[OF assms(6,8), of 0 st1] assms(7) by simp
  show ?thesis
    by (rule request_returns_at_first_attempt[OF assms(1-5) ret])
qed

lemma not_found_is_terminal:
  assumes "buildUrl pf c path (opt_params options) = Inr u"
    and "less_eq_number 0 (retries c)"
    and "getAuthHeaders pf (Date_now pf 0) c = Inr auth"
    and "fetchFn c = Some f"
    and "settled (f 0 (fetchOptions pf u (method_of options) (opt_body options)
                         (headers_of options) auth))
           = Resolves \<lparr>resp_status = 404, resp_json = Some (JObj [(''message'', JStr ''not found'')])\<rparr>"
  shows "\<exists>st. request pf c path options
             = Some (Inr (\<lparr>ok = False, status = 404, data = None, error = Some ''not found''\<rparr>, st))
           \<and> calls st = [fetchOptions pf u (method_of options) (opt_body options)
                            (headers_of options) auth]
           \<and> sleeps st = []"
proof -
  let ?r = "\<lparr>resp_status = 404, resp_json = Some (JObj [(''message'', JStr ''not found'')])\<rparr>"
  have a: "\<not> resp_ok ?r" by (simp add: resp_ok_def)
  have b: "\<not> isRetryable (resp_status ?r)" by (simp add: isRetryable_def)
  have c: "errorMessage pf (case resp_json ?r of None \<Rightarrow> JObj [] | Some v \<Rightarrow> v) (resp_status ?r) = Inr ''not found''"
    by (simp add: errorMessage_def)
  show ?thesis
    using terminal_status_returns_at_once[OF assms(1-5) a b c] by (simp add: failure_def)
qed

subsection \<open>The invocations of a request\<close>

text \<open>An attempt whose headers can be derived invokes the transport, once; the record of
  invocations only grows.\<close>

lemma attempt_step_invokes:
  assumes "getAuthHeaders pf (Date_now pf a) (client st) = Inr auth"
    and "fetchFn (client st) = Some f"
  shows "calls (step_state (attempt_step pf u m b hdrs a st))
           = calls st @ [fetchOptions pf u m b hdrs auth]"
proof -
  let ?call = "fetchOptions pf u m b hdrs auth"
  let ?st1 = "awaited (f (length (calls st)) ?call) ?call st"
  show ?thesis
  proof (cases "settled (f (length (calls st)) ?call)")
    case (Rejects e)
    then show ?thesis
      by (simp add: attempt_step_rejects[OF assms Rejects] calls_sleep calls_awaited)
  next
    case Pending
    then show ?thesis using assms
      by (simp add: attempt_step_def try_attempt_def Let_def calls_awaited)
  next
    case (Resolves r)
    show ?thesis
    proof (cases "on_response pf a r ?st1")
      case (Inl x)
      obtain e st' where x: "x = (e, st')" by (cases x)
      have "st' = ?st1" using Inl x on_response_throw_state by blast
      then show ?thesis using Inl x
        by (simp add: attempt_step_resolves[OF assms Resolves] catch_block_def Let_def
              calls_sleep calls_awaited)
    next
      case (Inr s)
      then show ?thesis using on_response_state[OF Inr]
        by (auto simp: attempt_step_resolves[OF assms Resolves] calls_sleep calls_awaited)
    qed
  qed
qed

lemma attempt_step_calls:
  "\<exists>new. calls (step_state (attempt_step pf u m b hdrs a st)) = calls st @ new"
proof (cases "getAuthHeaders pf (Date_now pf a) (client st)")
  case (Inl e)
  then show ?thesis
    by (simp add: attempt_step_def try_attempt_def catch_block_def Let_def calls_sleep)
next
  case (Inr auth)
  show ?thesis
  proof (cases "fetchFn (client st)")
    case None
    then show ?thesis using Inr
      by (simp add: attempt_step_def try_attempt_def catch_block_def Let_def calls_sleep)
  next
    case (Some f)
    show ?thesis using attempt_step_invokes[OF Inr Some] by simp
  qed
qed

lemma request_loop_calls:
  assumes "request_loop pf u m b hdrs a le st = Some y"
  shows "\<exists>new. calls (snd y) = calls st @ new"
  using assms
proof (induction rule: request_loop.raw_induct[rotated 1, consumes 1])
  case (1 loop pf u m b hdrs attempt lastError st y)
  show ?case
  proof (cases "less_eq_number attempt (retries (client st))")
    case False
    then show ?thesis using 1(2) by (auto split: option.splits)
  next
    case True
    obtain new where new: "calls (step_state (attempt_step pf u m b hdrs attempt st)) = calls st @ new"
      using attempt_step_calls by blast
    show ?thesis
    proof (cases "attempt_step pf u m b hdrs attempt st")
      case (Return r st')
      then show ?thesis using True 1(2) new by auto
    next
      case (Continue e st')
      then have "loop pf u m b hdrs (increment attempt) (Some e) st' = Some y"
        using True 1(2) by simp
      then obtain new' where "calls (snd y) = calls st' @ new'" using 1(1) by blast
      then show ?thesis using new Continue by simp
    next
      case (Suspended st')
      then show ?thesis using True 1(2) by simp
    qed
  qed
qed

lemma request_first_call:
  assumes req: "request pf c path options = Some (Inr (r, st))"
    and url: "buildUrl pf c path (opt_params options) = Inr u"
    and le: "less_eq_number 0 (retries c)"
    and auth: "getAuthHeaders pf (Date_now pf 0) c = Inr auth"
    and ff: "fetchFn c = Some f"
  shows "calls st \<noteq> [] \<and> calls st ! 0 = fetchOptions pf u (method_of options) (opt_body options)
                                           (headers_of options) auth"
proof -
  let ?st0 = "\<lparr>client = c, calls = [], sleeps = []\<rparr>"
  let ?m = "method_of options" and ?h = "headers_of options" and ?b = "opt_body options"
  let ?call = "fetchOptions pf u ?m ?b ?h auth"
  have loop: "request_loop pf u ?m ?b ?h 0 None ?st0 = Some (r, st)"
    using req url by (auto simp: request_def Let_def method_of_def headers_of_def)
  have inv: "calls (step_state (attempt_step pf u ?m ?b ?h 0 ?st0)) = [?call]"
    using attempt_step_invokes[of pf 0 ?st0 auth f u ?m ?b ?h] auth ff by simp
  have "\<exists>new. calls st = ?call # new"
  proof (cases "attempt_step pf u ?m ?b ?h 0 ?st0")
    case (Return r' st')
    then show ?thesis using loop le inv
      by (simp add: request_loop.simps[of pf u ?m ?b ?h 0])
  next
    case (Continue e st')
    then have "request_loop pf u ?m ?b ?h (increment 0) (Some e) st' = Some (r, st)"
      using loop le by (simp add: request_loop.simps[of pf u ?m ?b ?h 0])
    from request_loop_calls[OF this] obtain new where "calls st = calls st' @ new" by auto
    then show ?thesis using inv Continue by simp
  next
    case (Suspended st')
    then show ?thesis using loop le by (simp add: request_loop.simps[of pf u ?m ?b ?h 0])
  qed
  then show ?thesis by auto
qed

text \<open>The attempts before the last were not answered with a success status: an
  invocation that is, is the last one, and its response makes the envelope.\<close>

lemma attempt_step_fetchFn:
  "fetchFn (client (step_state (attempt_step pf u m b hdrs a st))) = fetchFn (client st)"
proof -
  have t: "case try_attempt pf u m b hdrs a st of
             Inl (e, st') \<Rightarrow> fetchFn (client st') = fetchFn (client st)
           | Inr s \<Rightarrow> fetchFn (client (step_state s)) = fetchFn (client st)"
    by (auto simp: try_attempt_def Let_def fetchFn_awaited client_sleep
             dest!: on_response_throw_state on_response_state
             split: sum.splits option.splits fetch_result.splits prod.splits)
  then show ?thesis
    by (auto simp: attempt_step_def catch_block_def Let_def client_sleep split: sum.splits prod.splits)
qed




lemma attempt_step_success_last:
  assumes H: "\<forall>k < length (calls st). \<forall>resp. settled (f k (calls st ! k)) = Resolves resp \<longrightarrow> \<not> resp_ok resp"
    and ff: "fetchFn (client st) = Some f"
  shows "case attempt_step pf u m b hdrs a st of
           Continue e st' \<Rightarrow>
             (\<forall>k < length (calls st'). \<forall>resp. settled (f k (calls st' ! k)) = Resolves resp \<longrightarrow> \<not> resp_ok resp)
         | Return r st' \<Rightarrow>
             (\<forall>k < length (calls st'). \<forall>resp. settled (f k (calls st' ! k)) = Resolves resp \<longrightarrow> resp_ok resp \<longrightarrow>
                Suc k = length (calls st')
                \<and> r = success (resp_status resp) (case resp_json resp of None \<Rightarrow> JObj [] | Some v \<Rightarrow> v))
         | Suspended st' \<Rightarrow> True"
proof (cases "getAuthHeaders pf (Date_now pf a) (client st)")
  case (Inl e)
  then show ?thesis using H
    by (simp add: attempt_step_def try_attempt_def catch_block_def Let_def calls_sleep)
next
  case (Inr auth)
  let ?call = "fetchOptions pf u m b hdrs auth"
  let ?st1 = "awaited (f (length (calls st)) ?call) ?call st"
  have old: "\<not> resp_ok resp"
    if "k < length (calls st)" "settled (f k ((calls st @ [?call]) ! k)) = Resolves resp" for k resp
    using that H by (simp add: nth_append)
  show ?thesis
  proof (cases "settled (f (length (calls st)) ?call)")
    case (Rejects e)
    have "\<not> resp_ok resp"
      if "k < Suc (length (calls st))" "settled (f k ((calls st @ [?call]) ! k)) = Resolves resp" for k resp
    proof (cases "k < length (calls st)")
      case True
      then show ?thesis using old that by blast
    next
      case False
      then have "k = length (calls st)" using that(1) by simp
      then show ?thesis using that(2) Rejects by simp
    qed
    then show ?thesis
      by (simp add: attempt_step_rejects[OF Inr ff Rejects] calls_sleep calls_awaited)
  next
    case Pending
    then show ?thesis using Inr ff
      by (simp add: attempt_step_def try_attempt_def Let_def)
  next
    case (Resolves r)
    have new: "resp = r"
      if "k < Suc (length (calls st))" "\<not> k < length (calls st)"
         "settled (f k ((calls st @ [?call]) ! k)) = Resolves resp" for k resp
    proof -
      have "k = length (calls st)" using that(1,2) by simp
      then show ?thesis using that(3) Resolves by simp
    qed
    show ?thesis
    proof (cases "resp_ok r")
      case True
      have "Suc k = Suc (length (calls st))
            \<and> success (resp_status r) (case resp_json r of None \<Rightarrow> JObj [] | Some v \<Rightarrow> v)
              = success (resp_status resp) (case resp_json resp of None \<Rightarrow> JObj [] | Some v \<Rightarrow> v)"
        if "k < Suc (length (calls st))" "settled (f k ((calls st @ [?call]) ! k)) = Resolves resp"
           "resp_ok resp" for k resp
      proof (cases "k < length (calls st)")
        case True
        then show ?thesis using old that by blast
      next
        case False
        then show ?thesis using new[OF that(1) False that(2)] that(1) by simp
      qed
      then show ?thesis
        by (simp add: attempt_step_resolves[OF Inr ff Resolves] on_response_ok[OF True] calls_awaited)
    next
      case False
      have none: "\<not> resp_ok resp"
        if "k < Suc (length (calls st))" "settled (f k ((calls st @ [?call]) ! k)) = Resolves resp" for k resp
      proof (cases "k < length (calls st)")
        case True
        then show ?thesis using old that by blast
      next
        case F: False
        then show ?thesis using new[OF that(1) F that(2)] False by simp
      qed
      show ?thesis
      proof (cases "on_response pf a r ?st1")
        case (Inl x)
        obtain e st' where x: "x = (e, st')" by (cases x)
        have "st' = ?st1" using Inl x on_response_throw_state by blast
        then show ?thesis using Inl x none
          by (simp add: attempt_step_resolves[OF Inr ff Resolves] catch_block_def Let_def
                calls_sleep calls_awaited)
      next
        case (Inr s)
        have "calls (step_state s) = calls st @ [?call]"
          using on_response_state[OF Inr] by (auto simp: calls_sleep calls_awaited)
        then show ?thesis using Inr none
          by (cases s) (simp_all add: attempt_step_resolves[OF \<open>getAuthHeaders pf (Date_now pf a) (client st) = Inr auth\<close> ff Resolves])
      qed
    qed
  qed
qed

lemma request_loop_success_last:
  assumes "request_loop pf u m b hdrs a le st = Some y"
    and "\<forall>k < length (calls st). \<forall>resp. settled (f k (calls st ! k)) = Resolves resp \<longrightarrow> \<not> resp_ok resp"
    and "fetchFn (client st) = Some f"
  shows "\<forall>k < length (calls (snd y)). \<forall>resp.
           settled (f k (calls (snd y) ! k)) = Resolves resp \<longrightarrow> resp_ok resp \<longrightarrow>
             Suc k = length (calls (snd y))
             \<and> fst y = success (resp_status resp) (case resp_json resp of None \<Rightarrow> JObj [] | Some v \<Rightarrow> v)"
  using assms
proof (induction rule: request_loop.raw_induct[rotated 1, consumes 1])
  case (1 loop pf u m b hdrs attempt lastError st y)
  show ?case
  proof (cases "less_eq_number attempt (retries (client st))")
    case False
    then have "snd y = st" using 1(2) by (auto split: option.splits)
    then show ?thesis using 1(3) by simp
  next
    case True
    note S = attempt_step_success_last[OF 1(3,4), of pf u m b hdrs attempt]
    show ?thesis
    proof (cases "attempt_step pf u m b hdrs attempt st")
      case (Return r st')
      then have "y = (r, st')" using True 1(2) by simp
      then show ?thesis using S Return by simp
    next
      case (Continue e st')
      have run: "loop pf u m b hdrs (increment attempt) (Some e) st' = Some y"
        using True Continue 1(2) by simp
      have H': "\<forall>k < length (calls st'). \<forall>resp. settled (f k (calls st' ! k)) = Resolves resp \<longrightarrow> \<not> resp_ok resp"
        using S Continue by simp
      have ff': "fetchFn (client st') = Some f"
        using attempt_step_fetchFn[of pf u m b hdrs attempt st] Continue 1(4) by simp
      show ?thesis using 1(1)[OF run H' ff'] .
    next
      case (Suspended st')
      then show ?thesis using True 1(2) by simp
    qed
  qed
qed

subsection \<open>The envelope and the URL\<close>





text \<open>With the retry count \<open>Infinity\<close> and a transport that throws at every invocation
  the loop does not end.\<close>

lemma request_loop_never_ends:
  assumes "request_loop pf u m b hdrs a lastError st = Some y"
    and "\<forall>s. \<exists>t. base64 pf s = Inr t"
    and "\<forall>n x. \<exists>e. settled (f n x) = Rejects e"
    and "retries (client st) = Infinity" and "fetchFn (client st) = Some f"
  shows False
  using assms
proof (induction rule: request_loop.raw_induct[rotated 1, consumes 1])
  case (1 loop pf u m b hdrs attempt lastError st y)
  have enc: "\<exists>t. base64 pf s = Inr t" for s using 1(3) by blast
  have rej: "\<exists>e. settled (f n x) = Rejects e" for n x using 1(4) by blast
  obtain call e where
    s: "attempt_step pf u m b hdrs attempt st =
          Continue (failure 0 (if instanceof_Error e then message e else ''Network error''))
            (if less_number attempt (retries (client st))
             then sleep (retryDelay (client st) * 2 ^ attempt) (awaited (f (length (calls st)) call) call st)
             else awaited (f (length (calls st)) call) call st)"
    using attempt_step_rejecting[OF enc rej 1(6), of u m b hdrs attempt] by blast
  let ?e = "failure 0 (if instanceof_Error e then message e else ''Network error'')"
  let ?st' = "sleep (retryDelay (client st) * 2 ^ attempt) (awaited (f (length (calls st)) call) call st)"
  have "loop pf u m b hdrs (increment attempt) (Some ?e) ?st' = Some y"
    using 1(2,5) s by simp
  moreover have "retries (client ?st') = Infinity" "fetchFn (client ?st') = Some f"
    using 1(5,6) by (simp_all add: client_sleep retries_awaited fetchFn_awaited)
  ultimately show ?case using 1(1) 1(3,4) by blast
qed

lemma infinite_retries_never_settle:
  assumes "retries c = Infinity" and "fetchFn c = Some f"
    and "\<And>n x. \<exists>e. settled (f n x) = Rejects e"
    and "\<And>s. \<exists>t. base64 pf s = Inr t"
    and "buildUrl pf c path (opt_params options) = Inr u"
  shows "request pf c path options = None"
proof -
  let ?st0 = "\<lparr>client = c, calls = [], sleeps = []\<rparr>"
  let ?loop = "request_loop pf u (case opt_method options of None \<Rightarrow> GET | Some x \<Rightarrow> x)
                 (opt_body options) (case opt_headers options of None \<Rightarrow> [] | Some h \<Rightarrow> h)
                 0 None ?st0"
  have "?loop = None"
  proof (cases ?loop)
    case (Some y)
    have "retries (client ?st0) = Infinity" "fetchFn (client ?st0) = Some f"
      using assms(1,2) by simp_all
    with request_loop_never_ends[OF Some, of f] assms(3,4) show ?thesis by blast
  qed simp
  then show ?thesis using assms(5) by (simp add: request_def Let_def)
qed

subsection \<open>Setting query parameters\<close>

lemma named_set_pair_same: "named k (set_pair k v ps) = [(k, v)]"
  by (induction ps) (auto simp: named_def filter_empty_conv)

lemma named_set_pair_other: "k' \<noteq> k \<Longrightarrow> named k' (set_pair k v ps) = named k' ps"
proof (induction ps)
  case Nil
  then show ?case by (simp add: named_def)
next
  case (Cons p ps)
  have "filter (\<lambda>q. fst q = k') (filter (\<lambda>q. fst q \<noteq> k) ps) = filter (\<lambda>q. fst q = k') ps"
    using Cons.prems by (auto simp: filter_filter intro: filter_cong)
  then show ?case using Cons by (auto simp: named_def)
qed

lemma set_pair_not_Nil: "set_pair k v ps \<noteq> []"
  by (cases ps) auto

lemma join_not_Nil: "x \<noteq> [] \<Longrightarrow> join sep (x # xs) \<noteq> []"
  by (cases xs) auto

lemma urlencoded_serialize_not_Nil: "ps \<noteq> [] \<Longrightarrow> urlencoded_serialize ps \<noteq> []"
  by (cases ps) (auto simp: urlencoded_serialize_def join_not_Nil split: prod.splits)

lemma searchParams_searchParams_set:
  "searchParams (searchParams_set k v u) = set_pair k v (searchParams u)"
  by (simp add: searchParams_set_def Let_def)

lemma query_searchParams_set:
  "query (searchParams_set k v u) = Some (urlencoded_serialize (searchParams (searchParams_set k v u)))"
  by (simp add: searchParams_set_def Let_def urlencoded_serialize_not_Nil set_pair_not_Nil)

lemma rest_searchParams_set:
  "href_base (searchParams_set k v u) = href_base u" "fragment (searchParams_set k v u) = fragment u"
  by (simp_all add: searchParams_set_def Let_def)

lemma rest_set_params:
  "href_base (set_params pf es u) = href_base u \<and> fragment (set_params pf es u) = fragment u"
  by (induction pf es u rule: set_params.induct) (auto simp: rest_searchParams_set split: option.splits)

lemma named_set_params:
  "named k (searchParams (set_params pf es u)) =
     (case last_defined es k of
        Some x \<Rightarrow> [(k, String_of pf x)]
      | None \<Rightarrow> named k (searchParams u))"
proof (induction pf es u rule: set_params.induct)
  case (1 pf u)
  then show ?case by simp
next
  case (2 pf key v es u)
  show ?case
  proof (cases "last_defined es k")
    case (Some x)
    then show ?thesis using 2 by simp
  next
    case None
    show ?thesis
    proof (cases v)
      case N: None
      then show ?thesis using 2 None by simp
    next
      case (Some y)
      then show ?thesis using 2 None
        by (cases "key = k")
           (simp_all add: searchParams_searchParams_set named_set_pair_same named_set_pair_other)
    qed
  qed
qed

lemma query_set_params:
  "some_defined es \<or> query u = Some (urlencoded_serialize (searchParams u)) \<Longrightarrow>
   query (set_params pf es u) = Some (urlencoded_serialize (searchParams (set_params pf es u)))"
proof (induction pf es u rule: set_params.induct)
  case (1 pf u)
  then show ?case by (simp add: some_defined_def)
next
  case (2 pf key v es u)
  show ?case
  proof (cases v)
    case None
    then show ?thesis using 2 by (simp add: some_defined_def)
  next
    case (Some x)
    then show ?thesis using 2 by (simp add: query_searchParams_set)
  qed
qed

lemma set_params_none_defined: "\<not> some_defined es \<Longrightarrow> set_params pf es u = u"
  by (induction pf es u rule: set_params.induct) (auto simp: some_defined_def)

lemma last_defined_not_key: "k \<notin> fst ` set es \<Longrightarrow> last_defined es k = None"
  by (induction es) (auto split: option.splits)

lemma last_defined_distinct_None:
  "distinct (map fst es) \<Longrightarrow> (k, None) \<in> set es \<Longrightarrow> last_defined es k = None"
proof (induction es)
  case Nil
  then show ?case by simp
next
  case (Cons e es)
  obtain key v where e: "e = (key, v)" by (cases e)
  have notin: "key \<notin> fst ` set es" using Cons.prems(1) e by auto
  show ?case
  proof (cases "k = key")
    case True
    then have "(k, None) \<notin> set es" using notin by (auto simp: image_iff)
    then have "v = None" using Cons.prems(2) e True by auto
    then show ?thesis using e True last_defined_not_key[OF notin] by simp
  next
    case False
    then show ?thesis using Cons e by (auto split: option.splits)
  qed
qed

lemma last_defined_distinct_Some:
  "distinct (map fst es) \<Longrightarrow> (k, Some x) \<in> set es \<Longrightarrow> last_defined es k = Some x"
proof (induction es)
  case Nil
  then show ?case by simp
next
  case (Cons e es)
  obtain key v where e: "e = (key, v)" by (cases e)
  have notin: "key \<notin> fst ` set es" using Cons.prems(1) e by auto
  show ?case
  proof (cases "k = key")
    case True
    then have "(k, Some x) \<notin> set es" using notin by (auto simp: image_iff)
    then have "v = Some x" using Cons.prems(2) e True by auto
    then show ?thesis using e True last_defined_not_key[OF notin] by simp
  next
    case False
    then show ?thesis using Cons e by auto
  qed
qed

subsection \<open>The examples\<close>

lemma outcome_Inr:
  "outcome x = Some (Inr (r, cs, ss)) \<Longrightarrow> \<exists>st. x = Some (Inr (r, st)) \<and> calls st = cs \<and> sleeps st = ss"
  by (cases x) (auto simp: outcome_def split: sum.splits prod.splits)

lemma String_integer_safe:
  "\<bar>i\<bar> < 9007199254740992 \<Longrightarrow> String_integer pf i = decimal i"
proof -
  assume a: "\<bar>i\<bar> < 9007199254740992"
  have "\<bar>of_int i :: rat\<bar> = of_int \<bar>i\<bar>" by simp
  also have "\<dots> < of_int 9007199254740992" using a by (simp only: of_int_less_iff)
  finally have "\<bar>of_int i :: rat\<bar> < 9007199254740992" by simp
  then show ?thesis by (simp add: String_integer_def String_number_def is_safe_integer_def)
qed

lemma String_number_examples:
  "String_integer pf 1700000000000 = ''1700000000000'' \<and> String_integer pf (- 42) = ''-42''
   \<and> String_number pf NaN = ''NaN'' \<and> String_number pf Infinity = ''Infinity''
   \<and> String_number example_runtime (Finite (10 ^ 21)) = ''1e+21''
   \<and> String_number example_runtime (Finite (1 / 2)) = ''0.5''"
proof -
  have "\<not> is_safe_integer (10 ^ 21)" "\<not> is_safe_integer (1 / 2)" by code_simp+
  then show ?thesis
    by (simp add: String_integer_safe decimal_def digits.simps String_number_def
          example_runtime_def example_Number_digits_def)
qed

lemma share_token_payload:
  "JSON_stringify pf (JObj [(''userId'', JStr ''u1''), (''timestamp'', JNum 1700000000000)])
   = [CHR ''{'', CHR 0x22] @ ''userId'' @ [CHR 0x22, CHR '':'', CHR 0x22] @ ''u1''
     @ [CHR 0x22, CHR '','', CHR 0x22] @ ''timestamp'' @ [CHR 0x22, CHR '':''] @ ''1700000000000}''"
  by (simp add: String_integer_safe decimal_def digits.simps json_quote_def json_escape_def)

lemma share_token_base64:
  "Buffer_base64 ([CHR ''{'', CHR 0x22] @ ''userId'' @ [CHR 0x22, CHR '':'', CHR 0x22] @ ''u1''
     @ [CHR 0x22, CHR '','', CHR 0x22] @ ''timestamp'' @ [CHR 0x22, CHR '':''] @ ''1700000000000}'')
   = ''eyJ1c2VySWQiOiJ1MSIsInRpbWVzdGFtcCI6MTcwMDAwMDAwMDAwMH0=''"
  by code_simp

lemma share_token_example:
  "getAuthHeaders example_runtime 1700000000000
     ((example_client (responding 200 None) 0)\<lparr>userId := Some ''u1'', secret := Some ''s1''\<rparr>)
   = Inr [(''x-entrolytics-share-token'', ''eyJ1c2VySWQiOiJ1MSIsInRpbWVzdGFtcCI6MTcwMDAwMDAwMDAwMH0='')]"
  using share_token_payload share_token_base64
  by (simp add: getAuthHeaders_def createShareToken_def example_client_def example_runtime_def)

lemma Buffer_base64_examples:
  "Buffer_base64 ''f'' = ''Zg=='' \<and> Buffer_base64 ''fo'' = ''Zm8='' \<and> Buffer_base64 ''foobar'' = ''Zm9vYmFy''"
  by code_simp

lemma JSON_stringify_example:
  "JSON_stringify example_runtime (JObj [(''a'', JArr [JNum 1, JNull, JStr [CHR ''x'', CHR 0x22, CHR ''y'', CHR 0x0A]])])
   = [CHR ''{'', CHR 0x22, CHR ''a'', CHR 0x22, CHR '':'', CHR ''['', CHR ''1'', CHR '','',
      CHR ''n'', CHR ''u'', CHR ''l'', CHR ''l'', CHR '','', CHR 0x22, CHR ''x'', CHR 0x5C, CHR 0x22,
      CHR ''y'', CHR 0x5C, CHR ''n'', CHR 0x22, CHR '']'', CHR ''}'']"
  by code_simp

lemma urlencoded_serialize_example:
  "urlencoded_serialize [(''q'', ''a b&c=d/~''), (''n'', ''-1'')] = ''q=a+b%26c%3Dd%2F%7E&n=-1''"
  by code_simp

lemma example_client_constructed:
  "ApiClient_new example_runtime
     (no_config\<lparr>cfg_endpoint := Some ''https://api.example.com'', cfg_fetch := Some f,
                cfg_retries := Some (Finite (of_int n))\<rparr>)
   = Inr (example_client f n)"
  by (simp add: ApiClient_new_def example_runtime_def no_config_def example_client_def getEnv_def or_else_def Let_def)

lemma has_scheme_example: "has_scheme ''https://api.example.com''"
  by code_simp

lemma buildUrl_example:
  "buildUrl example_runtime (example_client f n) ''/users'' None = Inr ''https://api.example.com/users''"
  by (simp add: buildUrl_def buildUrl_URL_def URL_new_def has_scheme_example example_runtime_def example_client_def example_URL_parse_def URL_toString_def)

lemma infinite_retries_example:
  "ApiClient_new example_runtime
     (no_config\<lparr>cfg_endpoint := Some ''https://api.example.com'',
                cfg_fetch := Some (rejecting (Error ''socket hang up'')), cfg_retries := Some Infinity\<rparr>)
     = Inr ((example_client (rejecting (Error ''socket hang up'')) 0)\<lparr>retries := Infinity\<rparr>)
   \<and> request example_runtime ((example_client (rejecting (Error ''socket hang up'')) 0)\<lparr>retries := Infinity\<rparr>)
        ''/users'' no_options = None"
proof -
  let ?f = "rejecting (Error ''socket hang up'')"
  let ?c = "(example_client ?f 0)\<lparr>retries := Infinity\<rparr>"
  have 1: "retries ?c = Infinity" and 2: "fetchFn ?c = Some ?f" by (simp_all add: example_client_def)
  have 3: "\<exists>e. settled (?f n x) = Rejects e" for n x by (simp add: rejecting_def)
  have 4: "\<exists>t. base64 example_runtime s = Inr t" for s by (simp add: example_runtime_def)
  have 5: "buildUrl example_runtime ?c ''/users'' (opt_params no_options) = Inr ''https://api.example.com/users''"
    by (simp add: buildUrl_def buildUrl_URL_def URL_new_def has_scheme_example example_runtime_def
          example_client_def example_URL_parse_def URL_toString_def no_options_def)
  have "request example_runtime ?c ''/users'' no_options = None"
    by (rule infinite_retries_never_settle[OF 1 2 3 4 5])
  then show ?thesis
    by (simp add: ApiClient_new_def example_runtime_def no_config_def example_client_def getEnv_def
          or_else_def Let_def)
qed

lemma pending_transport_example:
  "request example_runtime (example_client hanging 0) ''/users'' no_options = None"
  by code_simp

subsection \<open>What \<open>request\<close> throws\<close>




subsection \<open>Status 503 on every attempt\<close>

text \<open>
  Claim C2 says that with \<open>retries = 2\<close> and status 503 at every attempt, \<open>request\<close>
  makes three attempts, sleeps \<open>retryDelay\<close> and \<open>retryDelay * 2\<close>, and resolves to
  \<open>{ ok: false, status: 503, error }\<close>. Lemma \<open>status_503_on_every_attempt\<close> shows this
  for responses whose body is not the JSON value \<open>null\<close>. For a body \<open>null\<close> the
  derivation of the error message reads a property of \<open>null\<close>; the \<open>TypeError\<close> is
  caught as if the transport had failed, and the envelope has status 0 and the
  \<open>TypeError\<close>'s message.
\<close>

theorem null_body_503_reported_as_status_0:
  "outcome (request example_runtime (example_client (responding 503 (Some JNull)) 2) ''/users'' no_options)
     = Some (Inr (\<lparr>ok = False, status = 0, data = None,
               error = Some ''Cannot read properties of null (reading 'error')''\<rparr>,
            [example_call, example_call, example_call], [1000, 2000]))"
  by code_simp

subsection \<open>Authentication priority\<close>



subsection \<open>Terminal statuses\<close>

text \<open>
  Claim C4 says that a 404 response with body \<open>{"message":"not found"}\<close> is returned
  after one attempt as \<open>{ ok: false, status: 404, error: "not found" }\<close> (lemma
  \<open>not_found_is_terminal\<close>), that a status is retried only when it is 0, 429 or at
  least 500 (lemmas \<open>isRetryable_iff\<close>, \<open>terminal_status_returns_at_once\<close>), and that
  the error message is the body's string \<open>error\<close>, else its string \<open>message\<close>, else
  \<open>HTTP <status>\<close> (lemmas \<open>errorMessage_object\<close>, \<open>errorMessage_other\<close>). For a 404
  response whose body is the JSON value \<open>null\<close> the code does otherwise: the attempt is
  retried until the attempts are used up, and the envelope has status 0 and the
  message of a \<open>TypeError\<close>.
\<close>

theorem null_body_404_is_retried:
  "outcome (request example_runtime (example_client (responding 404 (Some JNull)) 2) ''/users'' no_options)
     = Some (Inr (\<lparr>ok = False, status = 0, data = None,
               error = Some ''Cannot read properties of null (reading 'error')''\<rparr>,
            [example_call, example_call, example_call], [1000, 2000]))"
  by code_simp

subsection \<open>A transport that throws\<close>

text \<open>
  Claim C5 says that with \<open>retries = 1\<close> and a transport that throws at every attempt
  the envelope's \<open>error\<close> is the exception's message, or \<open>Network error\<close> when the
  thrown value carries no message. It does not hold as worded: the code takes the
  message only of an instance of \<open>Error\<close>. A transport that throws the object
  \<open>{ message: 'boom' }\<close>, which carries a message, gives \<open>Network error\<close>.
\<close>

theorem thrown_object_with_message_counterexample:
  "outcome (request example_runtime
              (example_client (rejecting (NonError (JObj [(''message'', JStr ''boom'')]))) 1)
              ''/users'' no_options)
     = Some (Inr (\<lparr>ok = False, status = 0, data = None, error = Some ''Network error''\<rparr>,
                  [example_call, example_call], [1000]))
   \<and> error_as_claimed (NonError (JObj [(''message'', JStr ''boom'')])) = ''boom''"
  by code_simp

text \<open>
  Claim C5, amended. With \<open>retries = 1\<close> and a transport that is invoked and throws at
  both attempts, a call of \<open>request\<close> invokes the transport exactly twice, sleeps
  \<open>retryDelay\<close> in between, and resolves to \<open>{ ok: false, status: 0, error }\<close>, where
  \<open>error\<close> is the message of the value thrown at the second attempt when that is an
  instance of \<open>Error\<close>, whatever the message, also the empty one, and \<open>Network error\<close>
  when it is any other value, also one that has a property \<open>message\<close>. The invocations
  are those the code makes: the first with the headers derived from the client, the
  second with the headers derived from the client as the first invocation left it.
\<close>

theorem transport_exception_on_every_attempt:
  assumes "retries c = Finite 1" and "fetchFn c = Some f"
    and "buildUrl pf c path (opt_params options) = Inr u"
    and "getAuthHeaders pf (Date_now pf 0) c = Inr auth0"
    and "settled (f 0 (call_with pf u options auth0)) = Rejects e0"
    and "getAuthHeaders pf (Date_now pf 1) (client_after f 0 [call_with pf u options auth0] c) = Inr auth1"
    and "settled (f 1 (call_with pf u options auth1)) = Rejects e1"
  shows "\<exists>st. request pf c path options
             = Some (Inr (\<lparr>ok = False, status = 0, data = None,
                            error = Some (if instanceof_Error e1 then message e1 else ''Network error'')\<rparr>, st))
           \<and> calls st = [call_with pf u options auth0, call_with pf u options auth1]
           \<and> sleeps st = [retryDelay c]"
proof -
  let ?m = "method_of options" and ?b = "opt_body options" and ?h = "headers_of options"
  let ?st0 = "\<lparr>client = c, calls = [], sleeps = []\<rparr>"
  define call0 where "call0 = fetchOptions pf u ?m ?b ?h auth0"
  define call1 where "call1 = fetchOptions pf u ?m ?b ?h auth1"
  define st1 where "st1 = awaited (f (length (calls ?st0)) call0) call0 ?st0"
  define st2 where "st2 = sleep (retryDelay c * 2 ^ 0) st1"
  define st3 where "st3 = awaited (f (length (calls st2)) call1) call1 st2"
  define E0 where "E0 = failure 0 (if instanceof_Error e0 then message e0 else ''Network error'')"
  define E1 where "E1 = failure 0 (if instanceof_Error e1 then message e1 else ''Network error'')"
  have cw: "call_with pf u options auth0 = call0" "call_with pf u options auth1 = call1"
    by (simp_all add: call_with_def call0_def call1_def)
  have a0: "getAuthHeaders pf (Date_now pf 0) (client ?st0) = Inr auth0" using assms(4) by simp
  have f0: "fetchFn (client ?st0) = Some f" using assms(2) by simp
  have r0: "settled (f (length (calls ?st0)) (fetchOptions pf u ?m ?b ?h auth0)) = Rejects e0"
    using assms(5) by (simp add: call_with_def)
  have s0: "attempt_step pf u ?m ?b ?h 0 ?st0 = Continue E0 st2"
    using attempt_step_rejects[OF a0 f0 r0] assms(1)
    by (simp add: E0_def st2_def st1_def call0_def)
  have c2: "client st2 = client_after f 0 [call0] c"
    by (simp add: st2_def st1_def client_sleep awaited_def split: option.splits)
  have rt2: "retries (client st2) = Finite 1"
    using assms(1) by (simp add: st2_def st1_def client_sleep retries_awaited)
  have l2: "length (calls st2) = Suc 0"
    by (simp add: st2_def st1_def calls_sleep calls_awaited)
  have a1: "getAuthHeaders pf (Date_now pf (Suc 0)) (client st2) = Inr auth1"
    using assms(6) by (simp only: c2 cw One_nat_def)
  have f1: "fetchFn (client st2) = Some f"
    using assms(2) by (simp add: st2_def st1_def client_sleep fetchFn_awaited)
  have r1: "settled (f (length (calls st2)) (fetchOptions pf u ?m ?b ?h auth1)) = Rejects e1"
    using assms(7) by (simp only: l2 call_with_def One_nat_def)
  have s1: "attempt_step pf u ?m ?b ?h (Suc 0) st2 = Continue E1 st3"
    using attempt_step_rejects[OF a1 f1 r1] rt2
    by (simp add: E1_def st3_def call1_def)
  have rt3: "retries (client st3) = Finite 1"
    using rt2 by (simp add: st3_def retries_awaited)
  have i0: "increment 0 = Suc 0" and i1: "increment (Suc 0) = Suc (Suc 0)"
    by (simp_all add: increment_def)
  have "request_loop pf u ?m ?b ?h (Suc (Suc 0)) (Some E1) st3 = Some (E1, st3)"
    using rt3 by (simp add: request_loop.simps[of pf u ?m ?b ?h "Suc (Suc 0)"])
  then have "request_loop pf u ?m ?b ?h (Suc 0) (Some E0) st2 = Some (E1, st3)"
    using s1 rt2 i1 by (simp add: request_loop.simps[of pf u ?m ?b ?h "Suc 0"])
  then have "request_loop pf u ?m ?b ?h 0 None ?st0 = Some (E1, st3)"
    using s0 assms(1) i0 by (simp add: request_loop.simps[of pf u ?m ?b ?h 0])
  then have "request pf c path options = Some (Inr (E1, st3))"
    using assms(3) by (simp add: request_def Let_def method_of_def headers_of_def)
  moreover have "calls st3 = [call_with pf u options auth0, call_with pf u options auth1]"
    by (simp add: cw st3_def st2_def st1_def calls_awaited calls_sleep)
  moreover have "sleeps st3 = [retryDelay c]"
    by (simp add: st3_def st2_def st1_def sleeps_awaited sleeps_sleep)
  ultimately show ?thesis unfolding failure_def E1_def by blast
qed

theorem transport_exception_on_every_attempt_witness:
  "retries (example_client (rejecting (Error [])) 1) = Finite 1
   \<and> buildUrl example_runtime (example_client (rejecting (Error [])) 1) ''/users''
        (opt_params no_options) = Inr ''https://api.example.com/users''
   \<and> getAuthHeaders example_runtime (Date_now example_runtime 0) (example_client (rejecting (Error [])) 1) = Inr []
   \<and> call_with example_runtime ''https://api.example.com/users'' no_options [] = example_call
   \<and> (\<exists>st. request example_runtime (example_client (rejecting (Error [])) 1) ''/users'' no_options
               = Some (Inr (\<lparr>ok = False, status = 0, data = None, error = Some []\<rparr>, st))
          \<and> calls st = [example_call, example_call] \<and> sleeps st = [1000])"
proof -
  let ?f = "rejecting (Error [])"
  let ?c = "example_client ?f 1"
  have 1: "retries ?c = Finite 1" and 2: "fetchFn ?c = Some ?f" and d: "retryDelay ?c = 1000"
    by (simp_all add: example_client_def)
  have 3: "buildUrl example_runtime ?c ''/users'' (opt_params no_options) = Inr ''https://api.example.com/users''"
    by (simp add: no_options_def buildUrl_example)
  have cw: "call_with example_runtime ''https://api.example.com/users'' no_options [] = example_call"
    by code_simp
  have ca: "client_after ?f 0 [example_call] ?c = ?c" by (simp add: rejecting_def)
  have 4: "getAuthHeaders example_runtime (Date_now example_runtime 0) ?c = Inr []"
    by (simp add: getAuthHeaders_def example_client_def)
  have 5: "settled (?f 0 (call_with example_runtime ''https://api.example.com/users'' no_options [])) = Rejects (Error [])"
    by (simp add: rejecting_def)
  have 6: "getAuthHeaders example_runtime (Date_now example_runtime 1)
             (client_after ?f 0 [call_with example_runtime ''https://api.example.com/users'' no_options []] ?c) = Inr []"
    by (simp only: cw ca) (simp add: getAuthHeaders_def example_client_def)
  have 7: "settled (?f 1 (call_with example_runtime ''https://api.example.com/users'' no_options [])) = Rejects (Error [])"
    by (simp add: rejecting_def)
  from transport_exception_on_every_attempt[OF 1 2 3 4 5 6 7]
  have "\<exists>st. request example_runtime ?c ''/users'' no_options
               = Some (Inr (\<lparr>ok = False, status = 0, data = None, error = Some []\<rparr>, st))
          \<and> calls st = [example_call, example_call] \<and> sleeps st = [1000]"
    by (simp add: cw d)
  then show ?thesis using 1 3 4 cw by blast
qed

subsection \<open>The request body\<close>

text \<open>
  Claim C6 says that a body the caller supplies is serialized to JSON and attached to
  the outgoing call, for every JSON-serializable value. The code tests the body for
  truthiness: the bodies \<open>0\<close>, \<open>false\<close> and the empty string are supplied and are not
  sent, while the body \<open>1\<close> is.
\<close>

theorem falsy_body_not_sent:
  "outcome (post example_runtime (example_client (responding 200 None) 0) ''/users'' (Some (JNum 0)))
     = Some (Inr (success 200 (JObj []), [example_call\<lparr>method := POST, body := None\<rparr>], []))
   \<and> outcome (post example_runtime (example_client (responding 200 None) 0) ''/users'' (Some (JBool False)))
     = Some (Inr (success 200 (JObj []), [example_call\<lparr>method := POST, body := None\<rparr>], []))
   \<and> outcome (post example_runtime (example_client (responding 200 None) 0) ''/users'' (Some (JStr [])))
     = Some (Inr (success 200 (JObj []), [example_call\<lparr>method := POST, body := None\<rparr>], []))
   \<and> outcome (post example_runtime (example_client (responding 200 None) 0) ''/users'' (Some (JNum 1)))
     = Some (Inr (success 200 (JObj []), [example_call\<lparr>method := POST, body := Some ''1''\<rparr>], []))"
  by code_simp

subsection \<open>Credential headers on the wire\<close>

text \<open>
  Claim C7 says that every outgoing request carries exactly one of the three credential
  headers, whatever the credentials and the header overrides. It does not hold: the
  request of a client without credentials carries none, and a client with a bearer
  token whose caller overrides the API-key header, or writes a second
  \<open>authorization\<close> header in lower case, sends two.
\<close>

theorem credential_counts_counterexample:
  "credential_counts (request example_runtime (example_client (responding 200 None) 0) ''/users'' no_options) = [0]
   \<and> credential_counts (request example_runtime (full_client (responding 200 None) 0) ''/users''
        (no_options\<lparr>opt_headers := Some [(''x-entrolytics-api-key'', ''key2'')]\<rparr>)) = [2]
   \<and> credential_counts (request example_runtime (full_client (responding 200 None) 0) ''/users''
        (no_options\<lparr>opt_headers := Some [(''authorization'', ''Basic dTpw'')]\<rparr>)) = [2]"
  by code_simp

text \<open>
  Claim C7, amended. Every transport invocation of a request carries the headers that
  \<open>getAuthHeaders\<close> derives from the client as it is at that attempt. They are
  credential headers and at most one: \<open>Authorization: Bearer <token>\<close> when the client
  has a non-empty bearer token, else the API-key header when it has a non-empty API
  key, else the share-token header when it has a non-empty user id and secret, and
  none for a client without credentials. The caller's overrides are written last: a
  header they name has the value they give it (so they can replace the derived
  credential header, or add another one), and every other header is as derived. When
  the overrides name no credential header, in whatever case, the derived headers are
  exactly the credential headers sent. This is shown of every invocation of a request
  that settles; and of each single attempt, in whatever state, also of a request that
  never settles: the attempt makes one invocation, with the derived headers and the
  overrides.
\<close>

theorem credential_header_by_priority:
  assumes "request pf c path options = Some (Inr (r, st))" and "fetchFn c = Some f"
    and "k < length (calls st)"
  shows "\<exists>ck now auth.
       ck = client_after f 0 (take k (calls st)) c
     \<and> getAuthHeaders pf now ck = Inr auth
     \<and> (truthy_str (bearerToken ck) \<longrightarrow>
          auth = [(''Authorization'', ''Bearer '' @ string_of (bearerToken ck))])
     \<and> (\<not> truthy_str (bearerToken ck) \<and> truthy_str (apiKey ck) \<longrightarrow>
          auth = [(''x-entrolytics-api-key'', string_of (apiKey ck))])
     \<and> (\<not> truthy_str (bearerToken ck) \<and> \<not> truthy_str (apiKey ck)
          \<and> truthy_str (userId ck) \<and> truthy_str (secret ck) \<longrightarrow>
          (\<exists>t. createShareToken pf now ck = Inr t \<and> auth = [(''x-entrolytics-share-token'', t)]))
     \<and> (\<not> truthy_str (bearerToken ck) \<and> \<not> truthy_str (apiKey ck)
          \<and> \<not> (truthy_str (userId ck) \<and> truthy_str (secret ck)) \<longrightarrow> auth = [])
     \<and> credential_headers auth = auth \<and> length auth \<le> 1
     \<and> (\<forall>name. map_of (headers (calls st ! k)) name =
          (case map_of (rev (headers_of options)) name of
             Some v \<Rightarrow> Some v
           | None \<Rightarrow> (case map_of auth name of
                        Some v \<Rightarrow> Some v
                      | None \<Rightarrow> map_of [(''Content-Type'', ''application/json'')] name)))
     \<and> (list_all (\<lambda>h. \<not> credential_header (fst h)) (headers_of options) \<longrightarrow>
          credential_headers (headers (calls st ! k)) = auth)
     \<and> (\<forall>u m b hdrs a st1 auth1.
          fetchFn (client st1) = Some f \<longrightarrow>
          getAuthHeaders pf (Date_now pf a) (client st1) = Inr auth1 \<longrightarrow>
          (\<exists>call. calls (step_state (attempt_step pf u m b hdrs a st1)) = calls st1 @ [call]
             \<and> headers call = spread (spread [(''Content-Type'', ''application/json'')] auth1) hdrs))"
proof -
  let ?ck = "client_after f 0 (take k (calls st)) c"
  let ?h = "headers_of options"
  obtain u where cd: "calls_derived pf f c u (case opt_method options of None \<Rightarrow> GET | Some x \<Rightarrow> x)
             (opt_body options) (case opt_headers options of None \<Rightarrow> [] | Some h \<Rightarrow> h) st"
    using request_calls_derived[OF assms(1,2)] by blast
  have "call_derived pf f c u (case opt_method options of None \<Rightarrow> GET | Some x \<Rightarrow> x)
             (opt_body options) (case opt_headers options of None \<Rightarrow> [] | Some h \<Rightarrow> h) (calls st) k"
    using cd assms(3) by (simp add: calls_derived_def)
  then obtain now auth where a: "getAuthHeaders pf now ?ck = Inr auth"
    and hd: "headers (calls st ! k) = spread (spread [(''Content-Type'', ''application/json'')] auth) ?h"
    unfolding call_derived_def by (auto simp: fetchOptions_def headers_of_def)
  note P = getAuthHeaders_priority[OF a]
  have sh: "(\<exists>n v. auth = [(n, v)] \<and> credential_header n) \<or> auth = []"
    using getAuthHeaders_shape[OF a] by blast
  have ch: "credential_headers auth = auth" and len: "length auth \<le> 1"
    using sh by (auto simp: credential_headers_def)
  have mp: "map_of (headers (calls st ! k)) name =
          (case map_of (rev ?h) name of
             Some v \<Rightarrow> Some v
           | None \<Rightarrow> (case map_of auth name of
                        Some v \<Rightarrow> Some v
                      | None \<Rightarrow> map_of [(''Content-Type'', ''application/json'')] name))" for name
  proof -
    have "rev auth = auth" using sh by auto
    then show ?thesis by (simp add: hd map_of_spread split: option.splits)
  qed
  have cr: "credential_headers (headers (calls st ! k)) = auth"
    if "list_all (\<lambda>h. \<not> credential_header (fst h)) ?h"
  proof -
    have "credential_headers (spread [(''Content-Type'', ''application/json'')] auth) = auth"
      using sh credential_header_names(4)
      by (auto simp: credential_headers_content_type) (simp add: spread_def credential_headers_def)
    then show ?thesis using that by (simp add: hd credential_headers_spread)
  qed
  have st: "\<exists>call. calls (step_state (attempt_step pf u m b hdrs a st1)) = calls st1 @ [call]
             \<and> headers call = spread (spread [(''Content-Type'', ''application/json'')] auth1) hdrs"
    if "fetchFn (client st1) = Some f" "getAuthHeaders pf (Date_now pf a) (client st1) = Inr auth1"
    for u m b hdrs a and st1 :: state and auth1
    using attempt_step_invokes[OF that(2,1), of u m b hdrs] by (simp add: fetchOptions_def)
  show ?thesis
    apply (rule exI[of _ ?ck])
    apply (rule exI[of _ now])
    apply (rule exI[of _ auth])
    using a P ch len mp cr st by simp
qed

theorem credential_header_by_priority_witness:
  "list_all (\<lambda>h. \<not> credential_header (fst h)) (headers_of (no_options\<lparr>opt_headers := Some [(''Accept'', ''text/plain'')]\<rparr>))
   \<and> (\<exists>r st. request example_runtime (full_client (responding 200 None) 0) ''/users''
                (no_options\<lparr>opt_headers := Some [(''Accept'', ''text/plain'')]\<rparr>) = Some (Inr (r, st))
          \<and> length (calls st) = 1
          \<and> credential_headers (headers (calls st ! 0)) = [(''Authorization'', ''Bearer jwt1'')]
          \<and> map_of (headers (calls st ! 0)) ''Accept'' = Some ''text/plain'')"
proof -
  let ?f = "responding 200 None"
  let ?c = "full_client ?f 0"
  let ?o = "no_options\<lparr>opt_headers := Some [(''Accept'', ''text/plain'')]\<rparr>"
  have l: "list_all (\<lambda>h. \<not> credential_header (fst h)) (headers_of ?o)"
    by code_simp
  have o: "outcome (request example_runtime ?c ''/users'' ?o)
         = Some (Inr (success 200 (JObj []),
                [example_call\<lparr>headers := [(''Content-Type'', ''application/json''),
                                            (''Authorization'', ''Bearer jwt1''), (''Accept'', ''text/plain'')]\<rparr>],
                []))"
    by code_simp
  then obtain r st where req: "request example_runtime ?c ''/users'' ?o = Some (Inr (r, st))"
    and cs: "calls st = [example_call\<lparr>headers := [(''Content-Type'', ''application/json''),
                                            (''Authorization'', ''Bearer jwt1''), (''Accept'', ''text/plain'')]\<rparr>]"
    using outcome_Inr by blast
  have ff: "fetchFn ?c = Some ?f" by (simp add: full_client_def example_client_def)
  have k: "0 < length (calls st)" using cs by simp
  obtain ck now auth where ck: "ck = client_after ?f 0 (take 0 (calls st)) ?c"
    and b: "truthy_str (bearerToken ck) \<longrightarrow>
          auth = [(''Authorization'', ''Bearer '' @ string_of (bearerToken ck))]"
    and m: "\<forall>name. map_of (headers (calls st ! 0)) name =
          (case map_of (rev (headers_of ?o)) name of
             Some v \<Rightarrow> Some v
           | None \<Rightarrow> (case map_of auth name of
                        Some v \<Rightarrow> Some v
                      | None \<Rightarrow> map_of [(''Content-Type'', ''application/json'')] name))"
    and cr: "list_all (\<lambda>h. \<not> credential_header (fst h)) (headers_of ?o) \<longrightarrow>
          credential_headers (headers (calls st ! 0)) = auth"
    using credential_header_by_priority[OF req ff k] by blast
  have "ck = ?c" using ck by simp
  then have "auth = [(''Authorization'', ''Bearer jwt1'')]"
    using b by (simp add: full_client_def example_client_def)
  then have "credential_headers (headers (calls st ! 0)) = [(''Authorization'', ''Bearer jwt1'')]"
    using cr l by simp
  moreover have "map_of (headers (calls st ! 0)) ''Accept'' = Some ''text/plain''"
    using m by (simp add: headers_of_def)
  ultimately show ?thesis using l req cs by simp
qed

subsection \<open>Query parameters\<close>

text \<open>
  Claim C8. \<open>buildUrl\<close> writes the entries of the parameter map into the query of the
  URL parsed from the path and the endpoint: for every key, the pairs of the built
  URL's query with that name are the single pair of the key and the string form of
  the last defined value written for it, and, when no defined value is written for it,
  the pairs the parsed URL had. The string form is \<open>String(value)\<close>: the string itself,
  \<open>true\<close> or \<open>false\<close>, and for a number, whichever it is, what \<open>Number::toString\<close>
  gives. So with the keys of an object (which are distinct) an entry whose value is
  \<open>undefined\<close> adds nothing to the query, and every other entry is there exactly once.
  Once a parameter is set, the query string is the serialization of these pairs; with
  no defined entry the URL is the parsed one. The URL that \<open>get\<close> passes to the
  transport, at every invocation, is the one \<open>buildUrl\<close> returns, and a request whose
  first attempt can derive its headers does invoke the transport.
\<close>

theorem buildUrl_query_parameters:
  assumes "URL_new pf path (endpoint c) = Inr u0"
  shows "\<exists>u'. buildUrl_URL pf c path (Some es) = Inr u'
     \<and> buildUrl pf c path (Some es) = Inr (URL_toString u')
     \<and> href_base u' = href_base u0 \<and> fragment u' = fragment u0
     \<and> (\<forall>k. named k (searchParams u') =
              (case last_defined es k of
                 Some x \<Rightarrow> [(k, String_of pf x)]
               | None \<Rightarrow> named k (searchParams u0)))
     \<and> (distinct (map fst es) \<longrightarrow>
          (\<forall>k. (k, None) \<in> set es \<longrightarrow> named k (searchParams u') = named k (searchParams u0)))
     \<and> (distinct (map fst es) \<longrightarrow>
          (\<forall>k x. (k, Some x) \<in> set es \<longrightarrow> named k (searchParams u') = [(k, String_of pf x)]))
     \<and> (some_defined es \<longrightarrow> query u' = Some (urlencoded_serialize (searchParams u')))
     \<and> (\<not> some_defined es \<longrightarrow> u' = u0)
     \<and> (\<forall>r st f. get pf c path (Some es) = Some (Inr (r, st)) \<longrightarrow> fetchFn c = Some f \<longrightarrow>
            (\<forall>i < length (calls st). url (calls st ! i) = URL_toString u')
          \<and> (\<forall>auth. less_eq_number 0 (retries c) \<longrightarrow>
                 getAuthHeaders pf (Date_now pf 0) c = Inr auth \<longrightarrow> calls st \<noteq> []))"
proof -
  let ?u = "set_params pf es u0"
  have b: "buildUrl_URL pf c path (Some es) = Inr ?u"
    using assms by (simp add: buildUrl_URL_def)
  have s: "buildUrl pf c path (Some es) = Inr (URL_toString ?u)"
    using b by (simp add: buildUrl_def)
  have n: "named k (searchParams ?u) =
              (case last_defined es k of
                 Some x \<Rightarrow> [(k, String_of pf x)]
               | None \<Rightarrow> named k (searchParams u0))" for k
    by (rule named_set_params)
  have n1: "named k (searchParams ?u) = named k (searchParams u0)"
    if "distinct (map fst es)" "(k, None) \<in> set es" for k
    using n[of k] last_defined_distinct_None[OF that] by simp
  have n2: "named k (searchParams ?u) = [(k, String_of pf x)]"
    if "distinct (map fst es)" "(k, Some x) \<in> set es" for k x
    using n[of k] last_defined_distinct_Some[OF that] by simp
  have q: "query ?u = Some (urlencoded_serialize (searchParams ?u))" if "some_defined es"
    using that by (simp add: query_set_params)
  let ?o = "\<lparr>opt_method = Some GET, opt_body = None, opt_params = Some es, opt_headers = None\<rparr>"
  have g: "url (calls st ! i) = URL_toString ?u"
    if "get pf c path (Some es) = Some (Inr (r, st))" "fetchFn c = Some f" "i < length (calls st)"
    for r st f i
  proof -
    have "request pf c path ?o = Some (Inr (r, st))" using that(1) by (simp add: get_def)
    from request_calls_fields[OF this that(2,3)]
    have "buildUrl pf c path (Some es) = Inr (url (calls st ! i))" by simp
    then show ?thesis using s by simp
  qed
  have g2: "calls st \<noteq> []"
    if "get pf c path (Some es) = Some (Inr (r, st))" "fetchFn c = Some f"
       "less_eq_number 0 (retries c)" "getAuthHeaders pf (Date_now pf 0) c = Inr auth"
    for r st f auth
  proof -
    have req: "request pf c path ?o = Some (Inr (r, st))" using that(1) by (simp add: get_def)
    have url: "buildUrl pf c path (opt_params ?o) = Inr (URL_toString ?u)" using s by simp
    show ?thesis using request_first_call[OF req url that(3,4,2)] by simp
  qed
  show ?thesis
    apply (rule exI[of _ ?u])
    using b s n n1 n2 q g g2 rest_set_params[of pf es u0] set_params_none_defined[of es pf u0]
    by (intro conjI allI impI) auto
qed

theorem buildUrl_query_parameters_witness:
  "URL_new example_runtime ''/users?page=1'' (endpoint (example_client (responding 200 None) 0))
     = Inr \<lparr>href_base = ''https://api.example.com/users'', query = Some ''page=1'',
            searchParams = [(''page'', ''1'')], fragment = None\<rparr>
   \<and> distinct (map fst [(''page'', Some (PNumber (Finite 2))), (''q'', None),
                        (''n'', Some (PNumber (Finite (10 ^ 21)))), (''active'', Some (PBoolean True))])
   \<and> some_defined [(''page'', Some (PNumber (Finite 2))), (''q'', None),
                   (''n'', Some (PNumber (Finite (10 ^ 21)))), (''active'', Some (PBoolean True))]
   \<and> less_eq_number 0 (retries (example_client (responding 200 None) 0))
   \<and> getAuthHeaders example_runtime (Date_now example_runtime 0) (example_client (responding 200 None) 0) = Inr []
   \<and> (\<exists>u'. buildUrl_URL example_runtime (example_client (responding 200 None) 0) ''/users?page=1''
              (Some [(''page'', Some (PNumber (Finite 2))), (''q'', None),
                     (''n'', Some (PNumber (Finite (10 ^ 21)))), (''active'', Some (PBoolean True))]) = Inr u'
          \<and> named ''page'' (searchParams u') = [(''page'', ''2'')]
          \<and> named ''q'' (searchParams u') = []
          \<and> named ''n'' (searchParams u') = [(''n'', ''1e+21'')]
          \<and> named ''active'' (searchParams u') = [(''active'', ''true'')]
          \<and> query u' = Some (urlencoded_serialize (searchParams u'))
          \<and> URL_toString u' = ''https://api.example.com/users?page=2&n=1e%2B21&active=true''
          \<and> (\<exists>r st. get example_runtime (example_client (responding 200 None) 0) ''/users?page=1''
                 (Some [(''page'', Some (PNumber (Finite 2))), (''q'', None),
                        (''n'', Some (PNumber (Finite (10 ^ 21)))), (''active'', Some (PBoolean True))])
                 = Some (Inr (r, st))
               \<and> calls st \<noteq> []
               \<and> map url (calls st) = [''https://api.example.com/users?page=2&n=1e%2B21&active=true'']))"
proof -
  let ?c = "example_client (responding 200 None) 0"
  let ?es = "[(''page'', Some (PNumber (Finite 2))), (''q'', None),
              (''n'', Some (PNumber (Finite (10 ^ 21)))), (''active'', Some (PBoolean True))]"
  let ?u0 = "\<lparr>href_base = ''https://api.example.com/users'', query = Some ''page=1'',
            searchParams = [(''page'', ''1'')], fragment = None\<rparr>"
  let ?s = "''https://api.example.com/users?page=2&n=1e%2B21&active=true''"
  have u0: "URL_new example_runtime ''/users?page=1'' (endpoint ?c) = Inr ?u0"
    by (simp add: URL_new_def has_scheme_example example_client_def example_runtime_def example_URL_parse_def)
  have d: "distinct (map fst ?es)" by simp
  have sd: "some_defined ?es" by (simp add: some_defined_def)
  have le: "less_eq_number 0 (retries ?c)" by (simp add: example_client_def)
  have au: "getAuthHeaders example_runtime (Date_now example_runtime 0) ?c = Inr []"
    by (simp add: getAuthHeaders_def example_client_def)
  have ff: "fetchFn ?c = Some (responding 200 None)" by (simp add: example_client_def)
  obtain u' where b: "buildUrl_URL example_runtime ?c ''/users?page=1'' (Some ?es) = Inr u'"
    and bs: "buildUrl example_runtime ?c ''/users?page=1'' (Some ?es) = Inr (URL_toString u')"
    and n1: "\<And>k. (k, None) \<in> set ?es \<Longrightarrow> named k (searchParams u') = named k (searchParams ?u0)"
    and n2: "\<And>k x. (k, Some x) \<in> set ?es \<Longrightarrow> named k (searchParams u') = [(k, String_of example_runtime x)]"
    and q: "query u' = Some (urlencoded_serialize (searchParams u'))"
    and g: "\<And>r st f. get example_runtime ?c ''/users?page=1'' (Some ?es) = Some (Inr (r, st)) \<Longrightarrow>
              fetchFn ?c = Some f \<Longrightarrow>
              (\<forall>i < length (calls st). url (calls st ! i) = URL_toString u')
            \<and> (\<forall>auth. less_eq_number 0 (retries ?c) \<longrightarrow>
                   getAuthHeaders example_runtime (Date_now example_runtime 0) ?c = Inr auth \<longrightarrow> calls st \<noteq> [])"
    using buildUrl_query_parameters[OF u0, of ?es] d sd by blast
  have s2: "String_of example_runtime (PNumber (Finite 2)) = ''2''" by code_simp
  have s21: "String_of example_runtime (PNumber (Finite (10 ^ 21))) = ''1e+21''" by code_simp
  have p1: "named ''page'' (searchParams u') = [(''page'', ''2'')]"
    using n2[of "''page''" "PNumber (Finite 2)"] s2 by simp
  have p2: "named ''q'' (searchParams u') = []"
    using n1[of "''q''"] by (simp add: named_def)
  have p3: "named ''n'' (searchParams u') = [(''n'', ''1e+21'')]"
    using n2[of "''n''" "PNumber (Finite (10 ^ 21))"] s21 by simp
  have p4: "named ''active'' (searchParams u') = [(''active'', ''true'')]"
    using n2[of "''active''" "PBoolean True"] by simp
  have "buildUrl example_runtime ?c ''/users?page=1'' (Some ?es) = Inr ?s"
    by code_simp
  then have ts: "URL_toString u' = ?s" using bs by simp
  have "outcome (get example_runtime ?c ''/users?page=1'' (Some ?es))
          = Some (Inr (success 200 (JObj []), [example_call\<lparr>url := ?s\<rparr>], []))"
    by code_simp
  then obtain r st where gt: "get example_runtime ?c ''/users?page=1'' (Some ?es) = Some (Inr (r, st))"
    and cs: "calls st = [example_call\<lparr>url := ?s\<rparr>]"
    using outcome_Inr by blast
  have all: "\<forall>i < length (calls st). url (calls st ! i) = ?s" and ne: "calls st \<noteq> []"
    using g[OF gt ff] le au ts by auto
  have "length (calls st) = 1" using cs by simp
  then have "map url (calls st) = [?s]"
    using all by (cases "calls st") auto
  then have G: "\<exists>r st. get example_runtime ?c ''/users?page=1'' (Some ?es) = Some (Inr (r, st))
               \<and> calls st \<noteq> [] \<and> map url (calls st) = [?s]"
    using gt ne by (intro exI[of _ r] exI[of _ st]) simp
  have U: "\<exists>u'. buildUrl_URL example_runtime ?c ''/users?page=1'' (Some ?es) = Inr u'
          \<and> named ''page'' (searchParams u') = [(''page'', ''2'')]
          \<and> named ''q'' (searchParams u') = []
          \<and> named ''n'' (searchParams u') = [(''n'', ''1e+21'')]
          \<and> named ''active'' (searchParams u') = [(''active'', ''true'')]
          \<and> query u' = Some (urlencoded_serialize (searchParams u'))
          \<and> URL_toString u' = ?s
          \<and> (\<exists>r st. get example_runtime ?c ''/users?page=1'' (Some ?es) = Some (Inr (r, st))
               \<and> calls st \<noteq> [] \<and> map url (calls st) = [?s])"
    using b p1 p2 p3 p4 q ts G by (intro exI[of _ u']) simp
  show ?thesis using u0 d sd le au U by simp
qed

subsection \<open>A success response whose body does not parse\<close>

text \<open>
  Claim C9. When the transport answers an invocation with a response whose status is a
  success status and whose body does not parse as JSON, \<open>request\<close> resolves to
  \<open>{ ok: true, status, data: {} }\<close> with that status, and that invocation is the last:
  nothing is thrown, nothing is retried. This is shown of the first attempt, where the
  request then resolves having invoked the transport once and slept not at all; of
  every request that settles, at whichever invocation the response arrives; and of the
  loop at whatever attempt and in whatever state it has reached, where it returns at
  once.
\<close>

theorem success_with_unparseable_body:
  assumes "fetchFn c = Some f"
  shows "(\<forall>u auth resp.
            buildUrl pf c path (opt_params options) = Inr u \<longrightarrow>
            less_eq_number 0 (retries c) \<longrightarrow>
            getAuthHeaders pf (Date_now pf 0) c = Inr auth \<longrightarrow>
            settled (f 0 (call_with pf u options auth)) = Resolves resp \<longrightarrow>
            resp_ok resp \<longrightarrow> resp_json resp = None \<longrightarrow>
            (\<exists>st. request pf c path options
                    = Some (Inr (\<lparr>ok = True, status = resp_status resp, data = Some (JObj []), error = None\<rparr>, st))
                  \<and> calls st = [call_with pf u options auth] \<and> sleeps st = []))
       \<and> (\<forall>r st k resp.
            request pf c path options = Some (Inr (r, st)) \<longrightarrow>
            k < length (calls st) \<longrightarrow>
            settled (f k (calls st ! k)) = Resolves resp \<longrightarrow>
            resp_ok resp \<longrightarrow> resp_json resp = None \<longrightarrow>
            Suc k = length (calls st)
            \<and> r = \<lparr>ok = True, status = resp_status resp, data = Some (JObj []), error = None\<rparr>)
       \<and> (\<forall>u m b hdrs a lastError st auth resp.
            client st = client_after f 0 (calls st) c \<longrightarrow>
            less_eq_number a (retries c) \<longrightarrow>
            getAuthHeaders pf (Date_now pf a) (client st) = Inr auth \<longrightarrow>
            settled (f (length (calls st)) (fetchOptions pf u m b hdrs auth)) = Resolves resp \<longrightarrow>
            resp_ok resp \<longrightarrow> resp_json resp = None \<longrightarrow>
            (\<exists>st'. request_loop pf u m b hdrs a lastError st
                     = Some (\<lparr>ok = True, status = resp_status resp, data = Some (JObj []), error = None\<rparr>, st')
                   \<and> calls st' = calls st @ [fetchOptions pf u m b hdrs auth]
                   \<and> sleeps st' = sleeps st))"
proof (intro conjI allI impI)
  fix u auth resp
  assume url: "buildUrl pf c path (opt_params options) = Inr u"
    and le: "less_eq_number 0 (retries c)"
    and auth: "getAuthHeaders pf (Date_now pf 0) c = Inr auth"
    and res: "settled (f 0 (call_with pf u options auth)) = Resolves resp"
    and ok: "resp_ok resp" and un: "resp_json resp = None"
  have res': "settled (f 0 (fetchOptions pf u (method_of options) (opt_body options)
                              (headers_of options) auth)) = Resolves resp"
    using res by (simp add: call_with_def)
  have ret: "on_response pf 0 resp st1 = Inr (Return (success (resp_status resp) (JObj [])) st1)" for st1
    using on_response_ok[OF ok, of pf 0 st1] un by simp
  show "\<exists>st. request pf c path options
                = Some (Inr (\<lparr>ok = True, status = resp_status resp, data = Some (JObj []), error = None\<rparr>, st))
              \<and> calls st = [call_with pf u options auth] \<and> sleeps st = []"
    using request_returns_at_first_attempt[OF url le auth assms res' ret]
    by (simp add: success_def call_with_def)
next
  fix r st k resp
  assume req: "request pf c path options = Some (Inr (r, st))"
    and k: "k < length (calls st)"
    and res: "settled (f k (calls st ! k)) = Resolves resp"
    and ok: "resp_ok resp" and un: "resp_json resp = None"
  let ?st0 = "\<lparr>client = c, calls = [], sleeps = []\<rparr>"
  obtain u where loop: "request_loop pf u (case opt_method options of None \<Rightarrow> GET | Some x \<Rightarrow> x)
                 (opt_body options) (case opt_headers options of None \<Rightarrow> [] | Some h \<Rightarrow> h)
                 0 None ?st0 = Some (r, st)"
    using req by (auto simp: request_def Let_def split: sum.splits)
  have H: "\<forall>k < length (calls ?st0). \<forall>resp. settled (f k (calls ?st0 ! k)) = Resolves resp \<longrightarrow> \<not> resp_ok resp"
    by simp
  have ff: "fetchFn (client ?st0) = Some f" using assms by simp
  from request_loop_success_last[OF loop H ff] k res ok un
  have "Suc k = length (calls st) \<and> r = success (resp_status resp) (JObj [])"
    by auto
  then show "Suc k = length (calls st)"
    and "r = \<lparr>ok = True, status = resp_status resp, data = Some (JObj []), error = None\<rparr>"
    by (simp_all add: success_def)
next
  fix u m b hdrs a lastError and st :: state and auth resp
  assume cl: "client st = client_after f 0 (calls st) c"
    and le: "less_eq_number a (retries c)"
    and auth: "getAuthHeaders pf (Date_now pf a) (client st) = Inr auth"
    and res: "settled (f (length (calls st)) (fetchOptions pf u m b hdrs auth)) = Resolves resp"
    and ok: "resp_ok resp" and un: "resp_json resp = None"
  let ?call = "fetchOptions pf u m b hdrs auth"
  let ?st1 = "awaited (f (length (calls st)) ?call) ?call st"
  have le': "less_eq_number a (retries (client st))"
    using le by (simp add: cl retries_client_after)
  have ff: "fetchFn (client st) = Some f"
    using assms by (simp add: cl fetchFn_client_after)
  have ret: "on_response pf a resp ?st1 = Inr (Return (success (resp_status resp) (JObj [])) ?st1)"
    using on_response_ok[OF ok, of pf a ?st1] un by simp
  have "request_loop pf u m b hdrs a lastError st = Some (success (resp_status resp) (JObj []), ?st1)"
    by (rule request_loop_returns[OF le' auth ff res ret])
  then show "\<exists>st'. request_loop pf u m b hdrs a lastError st
                     = Some (\<lparr>ok = True, status = resp_status resp, data = Some (JObj []), error = None\<rparr>, st')
                   \<and> calls st' = calls st @ [fetchOptions pf u m b hdrs auth]
                   \<and> sleeps st' = sleeps st"
    by (simp add: success_def calls_awaited sleeps_awaited)
qed

theorem success_with_unparseable_body_witness:
  "less_eq_number 0 (retries (example_client (responding 204 None) 3))
   \<and> buildUrl example_runtime (example_client (responding 204 None) 3) ''/users'' (opt_params no_options)
       = Inr ''https://api.example.com/users''
   \<and> getAuthHeaders example_runtime (Date_now example_runtime 0) (example_client (responding 204 None) 3) = Inr []
   \<and> call_with example_runtime ''https://api.example.com/users'' no_options [] = example_call
   \<and> settled (responding 204 None 0 example_call) = Resolves \<lparr>resp_status = 204, resp_json = None\<rparr>
   \<and> resp_ok \<lparr>resp_status = 204, resp_json = None\<rparr>
   \<and> (\<exists>st. request example_runtime (example_client (responding 204 None) 3) ''/users'' no_options
              = Some (Inr (\<lparr>ok = True, status = 204, data = Some (JObj []), error = None\<rparr>, st))
           \<and> calls st = [example_call] \<and> sleeps st = [])
   \<and> (\<exists>r st. request example_runtime (example_client recovering 3) ''/users'' no_options = Some (Inr (r, st))
           \<and> calls st = [example_call, example_call] \<and> sleeps st = [1000]
           \<and> settled (recovering 1 (calls st ! 1)) = Resolves \<lparr>resp_status = 204, resp_json = None\<rparr>
           \<and> r = \<lparr>ok = True, status = 204, data = Some (JObj []), error = None\<rparr>)"
proof -
  let ?f = "responding 204 None"
  let ?c = "example_client ?f 3"
  let ?u = "''https://api.example.com/users''"
  let ?resp = "\<lparr>resp_status = 204, resp_json = None\<rparr>"
  have 1: "less_eq_number 0 (retries ?c)" and 2: "fetchFn ?c = Some ?f"
    by (simp_all add: example_client_def)
  have 3: "buildUrl example_runtime ?c ''/users'' (opt_params no_options) = Inr ?u"
    by (simp add: no_options_def buildUrl_example)
  have 4: "getAuthHeaders example_runtime (Date_now example_runtime 0) ?c = Inr []"
    by (simp add: getAuthHeaders_def example_client_def)
  have cw: "call_with example_runtime ?u no_options [] = example_call" by code_simp
  have 5: "settled (?f 0 example_call) = Resolves ?resp" by (simp add: responding_def)
  have ok: "resp_ok ?resp" by (simp add: resp_ok_def)
  note T = success_with_unparseable_body[OF 2, of example_runtime "''/users''" no_options]
  have first: "\<exists>st. request example_runtime ?c ''/users'' no_options
              = Some (Inr (\<lparr>ok = True, status = 204, data = Some (JObj []), error = None\<rparr>, st))
           \<and> calls st = [example_call] \<and> sleeps st = []"
    using T 1 3 4 5 ok cw by fastforce
  let ?c' = "example_client recovering 3"
  have ff': "fetchFn ?c' = Some recovering" by (simp add: example_client_def)
  note T' = success_with_unparseable_body[OF ff', of example_runtime "''/users''" no_options]
  have "outcome (request example_runtime ?c' ''/users'' no_options)
          = Some (Inr (success 204 (JObj []), [example_call, example_call], [1000]))"
    by code_simp
  then obtain r st where req: "request example_runtime ?c' ''/users'' no_options = Some (Inr (r, st))"
    and cs: "calls st = [example_call, example_call]" and ss: "sleeps st = [1000]"
    using outcome_Inr by blast
  have k: "1 < length (calls st)" using cs by simp
  have s: "settled (recovering 1 (calls st ! 1)) = Resolves ?resp" by (simp add: recovering_def)
  have "r = \<lparr>ok = True, status = 204, data = Some (JObj []), error = None\<rparr>"
    using T' req k s ok by fastforce
  then have later: "\<exists>r st. request example_runtime ?c' ''/users'' no_options = Some (Inr (r, st))
           \<and> calls st = [example_call, example_call] \<and> sleeps st = [1000]
           \<and> settled (recovering 1 (calls st ! 1)) = Resolves ?resp
           \<and> r = \<lparr>ok = True, status = 204, data = Some (JObj []), error = None\<rparr>"
    using req cs ss s by (intro exI[of _ r] exI[of _ st]) simp
  show ?thesis using 1 3 4 cw 5 ok first later by simp
qed

subsection \<open>Empty strings as credentials\<close>




end
